theory Spec2Isabelle
  imports Complex_Main "HOL-Library.Word"
begin

section \<open>The BeeLine reader overlay (src/modules/beelineReader.ts)\<close>

text \<open>
  A shallow embedding of \<^verbatim>\<open>BeeLineReaderService\<close>. JavaScript strings are sequences of
  UTF-16 code units. JavaScript numbers are IEEE 754 doubles: a number is modelled as the
  real it denotes, and every arithmetic operation of the source rounds its exact result to
  the nearest double. The DOM is reduced to what the service reads and writes: the child
  nodes and the two data attributes of each text-layer span, the theme flags, the pending
  timeouts of the reader's iframe window, the toggle button and the mutation observers.
  Objects that closures capture (the state objects) live in a store and are referred to by
  reference.
\<close>

subsection \<open>Constants\<close>

type_synonym jsstring = "16 word list"

type_synonym rgb = "int \<times> int \<times> int"

definition CHARACTERS_PER_CYCLE :: nat where
  "CHARACTERS_PER_CYCLE = 48"

definition BLUE :: rgb where
  "BLUE = (26, 115, 232)"

definition RED :: rgb where
  "RED = (220, 38, 38)"

definition BLACK :: rgb where
  "BLACK = (17, 24, 39)"

definition WHITE :: rgb where
  "WHITE = (241, 245, 249)"

text \<open>The string \<^verbatim>\<open>"1"\<close> written into \<^verbatim>\<open>dataset.beelineApplied\<close>.\<close>

definition ONE :: jsstring where
  "ONE = [0x31]"

subsection \<open>Double-precision arithmetic\<close>

text \<open>
  \<open>fl x\<close> is the double nearest to the real \<open>x\<close>, a tie going to the even significand.
  The doubles of the binade from \<open>2^e\<close> up to \<open>2^(e+1)\<close> are the multiples of \<open>2^(e-52)\<close>;
  below \<open>2^-1022\<close> (the subnormal range) the spacing stays \<open>2^-1074\<close>. \<open>binade\<close> finds
  the exponent by halving or doubling, at most 1023 and 1022 times, which covers the
  exponents of all finite doubles. Results of magnitude \<open>2^1024\<close> or more (Infinity) and
  NaN are not modelled; the overlay keeps every intermediate value below \<open>2^9\<close>.
\<close>

definition pow2 :: "int \<Rightarrow> real" where
  "pow2 e = (if 0 \<le> e then 2 ^ nat e else 1 / 2 ^ nat (- e))"

fun expUp :: "nat \<Rightarrow> real \<Rightarrow> int" where
  "expUp n x = (if n = 0 \<or> x < 2 then 0 else 1 + expUp (n - 1) (x / 2))"

fun expDown :: "nat \<Rightarrow> real \<Rightarrow> int" where
  "expDown n x = (if n = 0 \<or> 1 \<le> x then 0 else expDown (n - 1) (x * 2) - 1)"

declare expUp.simps [simp del]

declare expDown.simps [simp del]

definition binade :: "real \<Rightarrow> int" where
  "binade x = (if 1 \<le> \<bar>x\<bar> then expUp 1023 \<bar>x\<bar> else expDown 1022 \<bar>x\<bar>)"

definition ulp :: "real \<Rightarrow> real" where
  "ulp x = pow2 (binade x - 52)"

text \<open>The nearest integer, a tie going to the even one.\<close>

definition rne :: "real \<Rightarrow> int" where
  "rne y =
     (if y - real_of_int \<lfloor>y\<rfloor> < 1 / 2 then \<lfloor>y\<rfloor>
      else if 1 / 2 < y - real_of_int \<lfloor>y\<rfloor> then \<lfloor>y\<rfloor> + 1
      else if even \<lfloor>y\<rfloor> then \<lfloor>y\<rfloor>
      else \<lfloor>y\<rfloor> + 1)"

definition fl :: "real \<Rightarrow> real" where
  "fl x = (if x = 0 then 0 else real_of_int (rne (x / ulp x)) * ulp x)"

text \<open>The operators \<^verbatim>\<open>+\<close>, \<^verbatim>\<open>-\<close>, \<^verbatim>\<open>*\<close> and \<^verbatim>\<open>/\<close> on numbers.\<close>

definition fadd :: "real \<Rightarrow> real \<Rightarrow> real" where
  "fadd x y = fl (x + y)"

definition fsub :: "real \<Rightarrow> real \<Rightarrow> real" where
  "fsub x y = fl (x - y)"

definition fmul :: "real \<Rightarrow> real \<Rightarrow> real" where
  "fmul x y = fl (x * y)"

definition fdiv :: "real \<Rightarrow> real \<Rightarrow> real" where
  "fdiv x y = fl (x / y)"

subsection \<open>Colour sampling: \<^verbatim>\<open>interpolate\<close> and \<^verbatim>\<open>sampleColor\<close>\<close>

text \<open>Indexing a colour triple, \<^verbatim>\<open>from[i]\<close> for \<open>i\<close> in 0, 1, 2. The entries are the
  integers of the source's constants.\<close>

fun chan :: "rgb \<Rightarrow> nat \<Rightarrow> int" where
  "chan (r, g, b) i = (if i = 0 then r else if i = 1 then g else b)"

text \<open>\<^verbatim>\<open>Math.round\<close>: the nearest integer of the number itself, a tie going up. It is exact,
  not a floating-point addition of one half.\<close>

definition Math_round :: "real \<Rightarrow> int" where
  "Math_round x = \<lfloor>x + 1 / 2\<rfloor>"

text \<open>The decimal text of an integer, as a template literal prints it.\<close>

fun digits :: "nat \<Rightarrow> string" where
  "digits n =
     (if n < 10 then [''0123456789'' ! n]
      else digits (n div 10) @ [''0123456789'' ! (n mod 10)])"

declare digits.simps [simp del]

definition showInt :: "int \<Rightarrow> string" where
  "showInt i = (if i < 0 then CHR ''-'' # digits (nat (- i)) else digits (nat i))"

text \<open>\<^verbatim>\<open>Math.round(from[i] + (to[i] - from[i]) * t)\<close>, each operator rounding.\<close>

definition channel :: "rgb \<Rightarrow> rgb \<Rightarrow> real \<Rightarrow> nat \<Rightarrow> int" where
  "channel from to t i =
     Math_round
       (fadd (real_of_int (chan from i))
          (fmul (fsub (real_of_int (chan to i)) (real_of_int (chan from i))) t))"

definition rgbText :: "int \<Rightarrow> int \<Rightarrow> int \<Rightarrow> string" where
  "rgbText r g b = ''rgb('' @ showInt r @ '', '' @ showInt g @ '', '' @ showInt b @ '')''"

definition interpolate :: "rgb \<Rightarrow> rgb \<Rightarrow> real \<Rightarrow> string" where
  "interpolate from to t = rgbText (channel from to t 0) (channel from to t 1) (channel from to t 2)"

definition sampleColor :: "real \<Rightarrow> rgb \<Rightarrow> string" where
  "sampleColor t endColor =
     (if t < 1 / 2 then interpolate BLUE RED (fmul t 2)
      else interpolate RED endColor (fmul (fsub t (1 / 2)) 2))"

text \<open>
  The words of the specification, for comparison with the code: the exact linear blend of
  two channel values at a parameter, the blend that section 4.1 prescribes for channel
  \<open>i\<close> at cycle position \<open>t\<close>, what it means for an integer to be a nearest integer of a
  real, and to be a nearest integer up to the rounding error \<open>2^-43\<close> of the arithmetic.
\<close>

definition linearBlend :: "int \<Rightarrow> int \<Rightarrow> real \<Rightarrow> real" where
  "linearBlend a b u = (1 - u) * real_of_int a + u * real_of_int b"

definition specBlend :: "real \<Rightarrow> rgb \<Rightarrow> nat \<Rightarrow> real" where
  "specBlend t endColor i =
     (if t < 1 / 2 then linearBlend (chan BLUE i) (chan RED i) (t * 2)
      else linearBlend (chan RED i) (chan endColor i) ((t - 1 / 2) * 2))"

definition nearestInt :: "int \<Rightarrow> real \<Rightarrow> bool" where
  "nearestInt c x \<longleftrightarrow> \<bar>real_of_int c - x\<bar> \<le> 1 / 2"

definition closeToBlend :: "int \<Rightarrow> real \<Rightarrow> bool" where
  "closeToBlend c x \<longleftrightarrow> \<bar>real_of_int c - x\<bar> \<le> 1 / 2 + pow2 (- 43)"

definition inByte :: "int \<Rightarrow> bool" where
  "inByte c \<longleftrightarrow> 0 \<le> c \<and> c \<le> 255"

definition validRgb :: "rgb \<Rightarrow> bool" where
  "validRgb c \<longleftrightarrow> inByte (chan c 0) \<and> inByte (chan c 1) \<and> inByte (chan c 2)"

text \<open>Reading a decimal text back, to show that the text determines the channels.\<close>

fun indexOf :: "'a list \<Rightarrow> 'a \<Rightarrow> nat" where
  "indexOf [] c = 0"
| "indexOf (x # xs) c = (if x = c then 0 else Suc (indexOf xs c))"

definition parseDigits :: "string \<Rightarrow> nat" where
  "parseDigits s = foldl (\<lambda>a c. 10 * a + indexOf ''0123456789'' c) 0 s"

subsection \<open>Text-layer spans\<close>

text \<open>
  A child of a text-layer span is a text node or an element; the only elements the service
  creates are the per-character spans, which carry the colour assigned to
  \<^verbatim>\<open>style.color\<close> and their text.
\<close>

datatype node = TextNode jsstring | CharSpan string jsstring

fun nodeText :: "node \<Rightarrow> jsstring" where
  "nodeText (TextNode s) = s"
| "nodeText (CharSpan c s) = s"

fun isCharSpan :: "node \<Rightarrow> bool" where
  "isCharSpan (TextNode s) = False"
| "isCharSpan (CharSpan c s) = True"

record span =
  childNodes :: "node list"
  beelineOriginal :: "jsstring option"
  beelineApplied :: "jsstring option"

text \<open>The getter and the setter of \<^verbatim>\<open>textContent\<close> on an element.\<close>

definition textContent :: "span \<Rightarrow> jsstring" where
  "textContent el = concat (map nodeText (childNodes el))"

definition setTextContent :: "jsstring \<Rightarrow> span \<Rightarrow> span" where
  "setTextContent v el = el\<lparr>childNodes := (if v = [] then [] else [TextNode v])\<rparr>"

text \<open>
  \<^verbatim>\<open>Array.from(sourceText)\<close> iterates a string by code points: a leading surrogate
  followed by a trailing surrogate is one element of two code units, every other code unit is
  an element of its own.
\<close>

definition isLead :: "16 word \<Rightarrow> bool" where
  "isLead u \<longleftrightarrow> 0xD800 \<le> u \<and> u \<le> 0xDBFF"

definition isTrail :: "16 word \<Rightarrow> bool" where
  "isTrail u \<longleftrightarrow> 0xDC00 \<le> u \<and> u \<le> 0xDFFF"

fun Array_from :: "jsstring \<Rightarrow> jsstring list" where
  "Array_from [] = []"
| "Array_from [u] = [u] # []"
| "Array_from (u # v # rest) =
     (if isLead u \<and> isTrail v then [u, v] # Array_from rest
      else [u] # Array_from (v # rest))"

text \<open>
  \<^verbatim>\<open>getSourceText\<close>: a stored original that is truthy (present and not the empty string)
  is returned; otherwise the current text is stored and returned. The result is the text
  and the span with its data attribute updated.
\<close>

definition getSourceText :: "span \<Rightarrow> jsstring \<times> span" where
  "getSourceText el =
     (case beelineOriginal el of
        Some orig \<Rightarrow>
          if orig \<noteq> [] then (orig, el)
          else (textContent el, el\<lparr>beelineOriginal := Some (textContent el)\<rparr>)
      | None \<Rightarrow> (textContent el, el\<lparr>beelineOriginal := Some (textContent el)\<rparr>))"

text \<open>
  \<^verbatim>\<open>restoreSpan\<close>: only a span whose marker is \<^verbatim>\<open>"1"\<close> is touched; its text becomes
  \<^verbatim>\<open>dataset.beelineOriginal || textContent\<close> and the marker is deleted.
\<close>

definition restoreSpan :: "span \<Rightarrow> span" where
  "restoreSpan el =
     (if beelineApplied el \<noteq> Some ONE then el
      else
        (setTextContent
           (case beelineOriginal el of
              Some orig \<Rightarrow> if orig \<noteq> [] then orig else textContent el
            | None \<Rightarrow> textContent el)
           el)\<lparr>beelineApplied := None\<rparr>)"

text \<open>
  The body of the colouring loop of \<^verbatim>\<open>refreshReader\<close> for one span, at the running
  offset \<open>charOffset\<close>: the updated span and the offset for the next span. The cycle
  position \<^verbatim>\<open>((charOffset + i) % 48) / 48\<close> is a division of numbers; the offsets are
  integers, which numbers hold exactly.
\<close>

definition fragment :: "rgb \<Rightarrow> nat \<Rightarrow> jsstring list \<Rightarrow> node list" where
  "fragment endColor charOffset chars =
     map (\<lambda>i. CharSpan
                (sampleColor (fdiv (real ((charOffset + i) mod CHARACTERS_PER_CYCLE))
                                (real CHARACTERS_PER_CYCLE)) endColor)
                (chars ! i))
         [0..<length chars]"

definition colorizeSpan :: "rgb \<Rightarrow> nat \<Rightarrow> span \<Rightarrow> span \<times> nat" where
  "colorizeSpan endColor charOffset el0 =
     (case getSourceText el0 of
        (sourceText, el) \<Rightarrow>
          if sourceText = [] then (el, charOffset)
          else
            (el\<lparr>childNodes := fragment endColor charOffset (Array_from sourceText),
                beelineApplied := Some ONE\<rparr>,
             charOffset + length (Array_from sourceText)))"

fun colorizeSpans :: "rgb \<Rightarrow> nat \<Rightarrow> span list \<Rightarrow> span list \<times> nat" where
  "colorizeSpans endColor charOffset [] = ([], charOffset)"
| "colorizeSpans endColor charOffset (el # rest) =
     (case colorizeSpan endColor charOffset el of
        (el', charOffset') \<Rightarrow>
          (case colorizeSpans endColor charOffset' rest of
             (rest', final) \<Rightarrow> (el' # rest', final)))"

subsection \<open>The iframe window of a reader\<close>

text \<open>
  What the service uses of \<^verbatim>\<open>reader._iframeWindow\<close> and its document: whether
  \<^verbatim>\<open>document.body\<close> exists, the elements matching \<^verbatim>\<open>.textLayer > span\<close> in document
  order, the two inputs of \<^verbatim>\<open>isDarkTheme\<close>, and the timeouts the service has pending in
  this window: each with its handle, its delay and the state object its callback has
  captured. Handles are positive and never reused, as the HTML timer API gives them.
\<close>

record window =
  body :: bool
  textSpans :: "span list"
  themeDark :: bool
  prefersDark :: bool
  timeouts :: "(nat \<times> nat \<times> nat) list"
  nextTimeout :: nat

definition setTimeout :: "nat \<Rightarrow> nat \<Rightarrow> window \<Rightarrow> nat \<times> window" where
  "setTimeout delay captured w =
     (Suc (nextTimeout w),
      w\<lparr>timeouts := timeouts w @ [(Suc (nextTimeout w), delay, captured)],
        nextTimeout := Suc (nextTimeout w)\<rparr>)"

definition clearTimeout :: "nat \<Rightarrow> window \<Rightarrow> window" where
  "clearTimeout h w = w\<lparr>timeouts := filter (\<lambda>e. fst e \<noteq> h) (timeouts w)\<rparr>"

definition isDarkTheme :: "window \<Rightarrow> bool" where
  "isDarkTheme w \<longleftrightarrow> themeDark w \<or> prefersDark w"

text \<open>
  A reader instance: its id, its type, its iframe window when it is available, and the
  toggle button of its toolbar document when the service has appended one. The button is
  represented by the state object that its click listener has captured.
\<close>

record ReaderInstance =
  instanceID :: string
  readerType :: string
  iframeWindow :: "window option"
  toggleButton :: "nat option"

subsection \<open>The service state\<close>

text \<open>
  A \<^verbatim>\<open>ReaderState\<close> object refers to its observer and its timer by handle. The service
  holds the map \<^verbatim>\<open>stateByReader\<close> from instance ids to state objects, given here as
  references into the store \<open>stateObjects\<close> of all state objects created so far
  (\<open>nextState\<close> is the next free reference), so that a closure keeps its state object
  when the map is cleared. \<open>observers\<close> is the store of the \<^verbatim>\<open>MutationObserver\<close> objects
  constructed so far: observer \<open>ob\<close> is \<open>observers ! ob\<close>, with the target it observes
  (the body of the iframe document of the reader with that instance id, or nothing) and
  the state object its callback has captured. \<open>listening\<close> says whether the toolbar handler
  is registered with the host. \<open>calls\<close> is instrumentation, not a field of the source: the
  calls of \<^verbatim>\<open>clearTimeout\<close> (with the handle given), of \<^verbatim>\<open>setTimeout\<close> (with the handle
  returned and the delay), of \<^verbatim>\<open>disconnect\<close> (with the observer) and of \<^verbatim>\<open>refreshReader\<close>
  that the service has made and the assignments of \<^verbatim>\<open>undefined\<close> to a timer field, in the
  order in which they happened.
\<close>

datatype call =
  ClearTimeoutCall nat
| SetTimeoutCall nat nat
| ResetTimerField
| DisconnectCall nat
| RefreshReaderCall

record ReaderState =
  enabled :: bool
  observer :: "nat option"
  refreshTimer :: "nat option"

record MutationObserver =
  observed :: "string option"
  callbackState :: nat

record service =
  listening :: bool
  stateByReader :: "string \<rightharpoonup> nat"
  stateObjects :: "nat \<Rightarrow> ReaderState"
  nextState :: nat
  observers :: "MutationObserver list"
  calls :: "call list"

text \<open>The object literal \<^verbatim>\<open>{ enabled: true }\<close>.\<close>

definition initialState :: ReaderState where
  "initialState = \<lparr>enabled = True, observer = None, refreshTimer = None\<rparr>"

text \<open>The service as constructed, and \<^verbatim>\<open>start\<close>.\<close>

definition freshService :: service where
  "freshService =
     \<lparr>listening = False, stateByReader = Map.empty, stateObjects = (\<lambda>ref. initialState),
      nextState = 0, observers = [], calls = []\<rparr>"

definition start :: "service \<Rightarrow> service" where
  "start sv = sv\<lparr>listening := True\<rparr>"

text \<open>An assignment to a field of a state object.\<close>

definition updateState :: "nat \<Rightarrow> (ReaderState \<Rightarrow> ReaderState) \<Rightarrow> service \<Rightarrow> service" where
  "updateState ref f sv = sv\<lparr>stateObjects := (stateObjects sv)(ref := f (stateObjects sv ref))\<rparr>"

definition ensureReaderState :: "service \<Rightarrow> ReaderInstance \<Rightarrow> nat \<times> service" where
  "ensureReaderState sv reader =
     (case stateByReader sv (instanceID reader) of
        Some ref \<Rightarrow> (ref, sv)
      | None \<Rightarrow>
          (nextState sv,
           sv\<lparr>stateByReader := (stateByReader sv)(instanceID reader \<mapsto> nextState sv),
              stateObjects := (stateObjects sv)(nextState sv := initialState),
              nextState := Suc (nextState sv)\<rparr>))"

text \<open>The end colour of a pass, the expression at line 136 of the source.\<close>

definition endColorFor :: "window \<Rightarrow> rgb" where
  "endColorFor w = (if isDarkTheme w then WHITE else BLACK)"

text \<open>Writing a call to the log. \<^verbatim>\<open>refreshReader\<close> is logged on entry.\<close>

definition logCall :: "call \<Rightarrow> service \<Rightarrow> service" where
  "logCall c sv = sv\<lparr>calls := calls sv @ [c]\<rparr>"

definition refreshReader :: "service \<Rightarrow> ReaderInstance \<Rightarrow> service \<times> ReaderInstance" where
  "refreshReader sv reader =
     (case iframeWindow reader of
        None \<Rightarrow> (logCall RefreshReaderCall sv, reader)
      | Some w \<Rightarrow>
          (case ensureReaderState (logCall RefreshReaderCall sv) reader of
             (ref, sv') \<Rightarrow>
               if \<not> enabled (stateObjects sv' ref) then
                 (sv', reader\<lparr>iframeWindow :=
                         Some (w\<lparr>textSpans := map restoreSpan (textSpans w)\<rparr>)\<rparr>)
               else
                 (sv', reader\<lparr>iframeWindow :=
                         Some (w\<lparr>textSpans :=
                                 fst (colorizeSpans (endColorFor w) 0 (textSpans w))\<rparr>)\<rparr>)))"

subsection \<open>The mutation observer and its debounce timer\<close>

text \<open>
  An added node of a mutation record, reduced to the three tests the callback makes of it;
  a mutation record is the list of its added nodes.
\<close>

record addedNode =
  isHTMLElement :: bool
  matchesTextLayer :: bool
  containsTextLayer :: bool

type_synonym MutationRecord = "addedNode list"

definition qualifies :: "MutationRecord list \<Rightarrow> bool" where
  "qualifies mutations =
     list_ex (list_ex (\<lambda>n. isHTMLElement n \<and> (matchesTextLayer n \<or> containsTextLayer n)))
       mutations"

definition observeReaderTextLayer :: "service \<Rightarrow> ReaderInstance \<Rightarrow> service" where
  "observeReaderTextLayer sv reader =
     (case iframeWindow reader of
        None \<Rightarrow> sv
      | Some w \<Rightarrow>
          (case ensureReaderState sv reader of
             (ref, sv') \<Rightarrow>
               if observer (stateObjects sv' ref) \<noteq> None then sv'
               else if \<not> body w then sv'
               else
                 (updateState ref (\<lambda>state. state\<lparr>observer := Some (length (observers sv'))\<rparr>) sv')
                   \<lparr>observers := observers sv'
                       @ [\<lparr>observed = Some (instanceID reader), callbackState = ref\<rparr>]\<rparr>))"

text \<open>
  The callback given to the observer (lines 89 to 114), with the state object it has
  captured. The window it has captured is the reader's.
\<close>

definition observerCallback ::
  "service \<Rightarrow> nat \<Rightarrow> ReaderInstance \<Rightarrow> MutationRecord list \<Rightarrow> service \<times> ReaderInstance" where
  "observerCallback sv ref reader mutations =
     (if \<not> qualifies mutations then (sv, reader)
      else
        (case iframeWindow reader of
           None \<Rightarrow> (sv, reader)
         | Some w \<Rightarrow>
             (case setTimeout 120 ref
                     (case refreshTimer (stateObjects sv ref) of
                        Some h \<Rightarrow> if h \<noteq> 0 then clearTimeout h w else w
                      | None \<Rightarrow> w) of
                (h', w') \<Rightarrow>
                  (updateState ref (\<lambda>state. state\<lparr>refreshTimer := Some h'\<rparr>)
                     (logCall (SetTimeoutCall h' 120)
                        (case refreshTimer (stateObjects sv ref) of
                           Some h \<Rightarrow> if h \<noteq> 0 then logCall (ClearTimeoutCall h) sv else sv
                         | None \<Rightarrow> sv)),
                   reader\<lparr>iframeWindow := Some w'\<rparr>))))"

text \<open>The callback given to \<^verbatim>\<open>setTimeout\<close> (lines 110 to 113), with the state object it
  has captured.\<close>

definition timerCallback :: "service \<Rightarrow> nat \<Rightarrow> ReaderInstance \<Rightarrow> service \<times> ReaderInstance" where
  "timerCallback sv ref reader =
     refreshReader
       (logCall ResetTimerField (updateState ref (\<lambda>state. state\<lparr>refreshTimer := None\<rparr>) sv))
       reader"

subsection \<open>The toolbar handler, the toggle and teardown\<close>

text \<open>
  The click listener of the toggle button (lines 34 to 38), with the state object it has
  captured; the button's own appearance is not modelled.
\<close>

definition clickHandler :: "service \<Rightarrow> nat \<Rightarrow> ReaderInstance \<Rightarrow> service \<times> ReaderInstance" where
  "clickHandler sv ref reader =
     refreshReader (updateState ref (\<lambda>state. state\<lparr>enabled := \<not> enabled state\<rparr>) sv) reader"

text \<open>
  \<^verbatim>\<open>toolbarHandler\<close>, the listener for \<^verbatim>\<open>renderToolbar\<close>: when the toolbar document has
  no toggle button yet, one is appended whose listener captures the state.
\<close>

definition toolbarHandler :: "service \<Rightarrow> ReaderInstance \<Rightarrow> service \<times> ReaderInstance" where
  "toolbarHandler sv reader =
     (if readerType reader \<noteq> ''pdf'' then (sv, reader)
      else
        (case ensureReaderState sv reader of
           (ref, sv') \<Rightarrow>
             refreshReader
               (observeReaderTextLayer sv'
                  (if toggleButton reader = None then reader\<lparr>toggleButton := Some ref\<rparr>
                   else reader))
               (if toggleButton reader = None then reader\<lparr>toggleButton := Some ref\<rparr>
                else reader)))"

text \<open>
  \<^verbatim>\<open>clearReader\<close>: a pending timeout is cleared when the handle is truthy and the window
  is available, the observer is disconnected, and the spans are restored when the window is
  available.
\<close>

definition disconnect :: "nat \<Rightarrow> service \<Rightarrow> service" where
  "disconnect ob sv =
     sv\<lparr>observers := (observers sv)[ob := (observers sv ! ob)\<lparr>observed := None\<rparr>]\<rparr>"

text \<open>The entry that the call of \<^verbatim>\<open>clearTimeout\<close> in \<^verbatim>\<open>clearReader\<close> (lines 189 to 191)
  leaves in the log of calls.\<close>

definition clearCalls :: "service \<Rightarrow> nat \<Rightarrow> ReaderInstance \<Rightarrow> service" where
  "clearCalls sv ref reader =
     (case (refreshTimer (stateObjects sv ref), iframeWindow reader) of
        (Some h, Some w) \<Rightarrow> if h \<noteq> 0 then logCall (ClearTimeoutCall h) sv else sv
      | _ \<Rightarrow> sv)"

definition clearReader :: "service \<Rightarrow> ReaderInstance \<Rightarrow> service \<times> ReaderInstance" where
  "clearReader sv reader =
     (case stateByReader sv (instanceID reader) of
        None \<Rightarrow> (sv, reader)
      | Some ref \<Rightarrow>
          ((case observer (stateObjects sv ref) of
              Some ob \<Rightarrow> logCall (DisconnectCall ob) (disconnect ob (clearCalls sv ref reader))
            | None \<Rightarrow> clearCalls sv ref reader),
           (case iframeWindow reader of
              None \<Rightarrow> reader
            | Some w \<Rightarrow>
                reader\<lparr>iframeWindow :=
                  Some ((case refreshTimer (stateObjects sv ref) of
                           Some h \<Rightarrow> if h \<noteq> 0 then clearTimeout h w else w
                         | None \<Rightarrow> w)
                        \<lparr>textSpans := map restoreSpan (textSpans w)\<rparr>)\<rparr>)))"

text \<open>
  \<^verbatim>\<open>stop\<close> over the host's list \<^verbatim>\<open>Zotero.Reader._readers\<close>: the handler is unregistered,
  the loop runs, then \<^verbatim>\<open>stateByReader.clear()\<close>.
\<close>

fun clearReaders :: "service \<Rightarrow> ReaderInstance list \<Rightarrow> service \<times> ReaderInstance list" where
  "clearReaders sv [] = (sv, [])"
| "clearReaders sv (reader # rest) =
     (case clearReader sv reader of
        (sv', reader') \<Rightarrow>
          (case clearReaders sv' rest of
             (sv'', rest') \<Rightarrow> (sv'', reader' # rest')))"

definition stop :: "service \<Rightarrow> ReaderInstance list \<Rightarrow> service \<times> ReaderInstance list" where
  "stop sv readers =
     (case clearReaders (sv\<lparr>listening := False\<rparr>) readers of
        (sv', readers') \<Rightarrow> (sv'\<lparr>stateByReader := Map.empty\<rparr>, readers'))"

subsection \<open>Events of one reader\<close>

text \<open>
  What happens to one reader, as a sequence of events: the host renders the toolbar (the
  handler runs while it is registered), the user clicks the toggle button (when there is
  one; its listener runs with the state it has captured), the host adds spans to the text
  layer, a batch of mutation records is delivered (to every observer that observes the
  reader's document body, each callback with the state it has captured), a pending timeout
  fires (it leaves the window's list, then its callback runs).
\<close>

record world =
  svc :: service
  rdr :: ReaderInstance

datatype event =
  RenderToolbar
| Click
| HostAddsSpans "span list"
| MutationBatch "MutationRecord list"
| TimerFires nat

definition observersOf :: "service \<Rightarrow> string \<Rightarrow> MutationObserver list" where
  "observersOf sv ident = filter (\<lambda>ob. observed ob = Some ident) (observers sv)"

definition deliver ::
  "MutationRecord list \<Rightarrow> service \<times> ReaderInstance \<Rightarrow> MutationObserver
     \<Rightarrow> service \<times> ReaderInstance" where
  "deliver mutations p ob = observerCallback (fst p) (callbackState ob) (snd p) mutations"

fun step :: "world \<Rightarrow> event \<Rightarrow> world" where
  "step wd RenderToolbar =
     (if listening (svc wd) then
        (case toolbarHandler (svc wd) (rdr wd) of (sv, r) \<Rightarrow> \<lparr>svc = sv, rdr = r\<rparr>)
      else wd)"
| "step wd Click =
     (case toggleButton (rdr wd) of
        None \<Rightarrow> wd
      | Some ref \<Rightarrow>
          (case clickHandler (svc wd) ref (rdr wd) of (sv, r) \<Rightarrow> \<lparr>svc = sv, rdr = r\<rparr>))"
| "step wd (HostAddsSpans spans) =
     (case iframeWindow (rdr wd) of
        None \<Rightarrow> wd
      | Some w \<Rightarrow> wd\<lparr>rdr := (rdr wd)\<lparr>iframeWindow := Some (w\<lparr>textSpans := textSpans w @ spans\<rparr>)\<rparr>\<rparr>)"
| "step wd (MutationBatch mutations) =
     (case foldl (deliver mutations) (svc wd, rdr wd)
             (observersOf (svc wd) (instanceID (rdr wd))) of
        (sv, r) \<Rightarrow> \<lparr>svc = sv, rdr = r\<rparr>)"
| "step wd (TimerFires h) =
     (case iframeWindow (rdr wd) of
        None \<Rightarrow> wd
      | Some w \<Rightarrow>
          (case find (\<lambda>e. fst e = h) (timeouts w) of
             None \<Rightarrow> wd
           | Some (h', delay, ref) \<Rightarrow>
               (case timerCallback (svc wd) ref
                       ((rdr wd)\<lparr>iframeWindow := Some (clearTimeout h w)\<rparr>) of
                  (sv, r) \<Rightarrow> \<lparr>svc = sv, rdr = r\<rparr>)))"

definition run :: "world \<Rightarrow> event list \<Rightarrow> world" where
  "run wd events = foldl step wd events"

subsection \<open>Notions used to state the properties\<close>

text \<open>
  The logical characters of a pass are the code points of the source texts of the spans,
  in document order. The nodes a pass has generated are the children of the spans whose
  stored original is not empty (after a pass every span has a stored original, and the
  spans with an empty one are those the loop skipped). The gradient over a character
  sequence gives the character at offset \<open>k\<close> the colour of cycle position
  \<open>(k mod 48) / 48\<close>, the quotient being a double.
\<close>

definition logicalChars :: "span list \<Rightarrow> jsstring list" where
  "logicalChars spans = concat (map (\<lambda>el. Array_from (fst (getSourceText el))) spans)"

definition generatedNodes :: "span list \<Rightarrow> node list" where
  "generatedNodes spans =
     concat (map childNodes (filter (\<lambda>el. beelineOriginal el \<noteq> Some []) spans))"

definition gradient :: "rgb \<Rightarrow> jsstring list \<Rightarrow> node list" where
  "gradient endColor chars =
     map (\<lambda>k. CharSpan (sampleColor (fdiv (real (k mod 48)) 48) endColor) (chars ! k))
         [0..<length chars]"

text \<open>
  Code points, said without \<open>Array_from\<close>: a code point is one code unit or a leading
  surrogate followed by a trailing one, and a string has as many code points as it has
  code units less the places where a leading surrogate is followed by a trailing one.
\<close>

fun isCodePoint :: "jsstring \<Rightarrow> bool" where
  "isCodePoint [u] = True"
| "isCodePoint [u, v] = (isLead u \<and> isTrail v)"
| "isCodePoint s = False"

fun surrogatePairs :: "jsstring \<Rightarrow> nat" where
  "surrogatePairs (u # v # rest) =
     (if isLead u \<and> isTrail v then 1 else 0) + surrogatePairs (v # rest)"
| "surrogatePairs s = 0"

definition codePointLength :: "jsstring \<Rightarrow> nat" where
  "codePointLength s = length s - surrogatePairs s"

text \<open>A colour is light when every channel is in the upper half of the range, dark when
  every channel is in the lower half.\<close>

definition lightColor :: "rgb \<Rightarrow> bool" where
  "lightColor c \<longleftrightarrow> 128 \<le> chan c 0 \<and> 128 \<le> chan c 1 \<and> 128 \<le> chan c 2"

definition darkColor :: "rgb \<Rightarrow> bool" where
  "darkColor c \<longleftrightarrow> chan c 0 < 128 \<and> chan c 1 < 128 \<and> chan c 2 < 128"

text \<open>The code units that ECMAScript counts as white space or as line terminators.\<close>

definition isWhiteSpace :: "16 word \<Rightarrow> bool" where
  "isWhiteSpace u \<longleftrightarrow>
     u \<in> {0x09, 0x0A, 0x0B, 0x0C, 0x0D, 0x20, 0xA0, 0x1680, 0x2028, 0x2029, 0x202F, 0x205F,
          0x3000, 0xFEFF}
     \<or> (0x2000 \<le> u \<and> u \<le> 0x200A)"

definition whitespaceOnly :: "jsstring \<Rightarrow> bool" where
  "whitespaceOnly s \<longleftrightarrow> s \<noteq> [] \<and> list_all isWhiteSpace s"

text \<open>
  What can happen to one span over time: a colouring pass reaches it with some end colour
  and running offset, a restoring pass reaches it, or the host renderer replaces its
  children.
\<close>

datatype spanOp = Apply rgb nat | Restore | HostSetsChildren "node list"

fun spanStep :: "span \<Rightarrow> spanOp \<Rightarrow> span" where
  "spanStep el (Apply endColor charOffset) = fst (colorizeSpan endColor charOffset el)"
| "spanStep el Restore = restoreSpan el"
| "spanStep el (HostSetsChildren ns) = el\<lparr>childNodes := ns\<rparr>"

definition spanRun :: "span \<Rightarrow> spanOp list \<Rightarrow> span" where
  "spanRun el ops = foldl spanStep el ops"

text \<open>
  The colourized state of a span, said without \<open>restoreSpan\<close>: a span is uncoloured when
  it carries no marker and none of its children is a generated character node. A span is
  restored from an earlier one when it carries no marker, is the earlier span if that
  carried none, and holds exactly the earlier span's stored original as its one text node
  if that was marked and had a non-empty original. The marker is consistent with the
  children when a span without marker has no generated character node; the host's own
  spans hold text nodes only.
\<close>

definition uncoloured :: "span \<Rightarrow> bool" where
  "uncoloured el \<longleftrightarrow> beelineApplied el \<noteq> Some ONE \<and> \<not> list_ex isCharSpan (childNodes el)"

definition markerConsistent :: "span \<Rightarrow> bool" where
  "markerConsistent el \<longleftrightarrow> beelineApplied el = Some ONE \<or> \<not> list_ex isCharSpan (childNodes el)"

definition restoredFrom :: "span \<Rightarrow> span \<Rightarrow> bool" where
  "restoredFrom before after \<longleftrightarrow>
     beelineApplied after \<noteq> Some ONE
     \<and> (beelineApplied before \<noteq> Some ONE \<longrightarrow> after = before)
     \<and> (beelineApplied before = Some ONE \<longrightarrow>
          \<not> list_ex isCharSpan (childNodes after)
          \<and> (\<forall>orig. beelineOriginal before = Some orig \<and> orig \<noteq> [] \<longrightarrow>
                childNodes after = [TextNode orig]))"

text \<open>Reading a reader and a world: the pending timeouts, the timer handle and the flag of
  the reader's state in the registry, and the spans.\<close>

definition timersOf :: "ReaderInstance \<Rightarrow> (nat \<times> nat \<times> nat) list" where
  "timersOf reader = (case iframeWindow reader of None \<Rightarrow> [] | Some w \<Rightarrow> timeouts w)"

definition spansOfReader :: "ReaderInstance \<Rightarrow> span list" where
  "spansOfReader reader = (case iframeWindow reader of None \<Rightarrow> [] | Some w \<Rightarrow> textSpans w)"

definition handleOf :: "service \<Rightarrow> ReaderInstance \<Rightarrow> nat option" where
  "handleOf sv reader =
     (case stateByReader sv (instanceID reader) of
        None \<Rightarrow> None
      | Some ref \<Rightarrow> refreshTimer (stateObjects sv ref))"

definition enabledOf :: "service \<Rightarrow> ReaderInstance \<Rightarrow> bool" where
  "enabledOf sv reader =
     (case stateByReader sv (instanceID reader) of
        None \<Rightarrow> False
      | Some ref \<Rightarrow> enabled (stateObjects sv ref))"

definition pendingTimers :: "world \<Rightarrow> (nat \<times> nat \<times> nat) list" where
  "pendingTimers wd = timersOf (rdr wd)"

definition timerHandle :: "world \<Rightarrow> nat option" where
  "timerHandle wd = handleOf (svc wd) (rdr wd)"

definition isEnabled :: "world \<Rightarrow> bool" where
  "isEnabled wd = enabledOf (svc wd) (rdr wd)"

definition spansOf :: "world \<Rightarrow> span list" where
  "spansOf wd = spansOfReader (rdr wd)"

text \<open>
  A world is coherent when at most one observer observes the reader's document, that
  observer has captured the state object of the registry and this state holds an observer,
  and either no timeout is pending or exactly one is, whose callback has captured the state
  object of the registry, which holds its handle.
\<close>

definition coherent :: "world \<Rightarrow> bool" where
  "coherent wd \<longleftrightarrow>
     length (observersOf (svc wd) (instanceID (rdr wd))) \<le> 1
     \<and> (\<forall>ob\<in>set (observersOf (svc wd) (instanceID (rdr wd))).
           stateByReader (svc wd) (instanceID (rdr wd)) = Some (callbackState ob)
           \<and> observer (stateObjects (svc wd) (callbackState ob)) \<noteq> None)
     \<and> (pendingTimers wd = []
          \<or> (\<exists>h d ref. pendingTimers wd = [(h, d, ref)]
                \<and> stateByReader (svc wd) (instanceID (rdr wd)) = Some ref
                \<and> refreshTimer (stateObjects (svc wd) ref) = Some h \<and> 0 < h))"

text \<open>
  The reader's document is observed; the calls of \<^verbatim>\<open>refreshReader\<close> made so far; the
  call of \<^verbatim>\<open>clearTimeout\<close> that a mutation batch makes for the handle it finds in the
  state; and the calls that \<open>k\<close> further batches make when the handle \<open>n\<close> is pending:
  each cancels the handle of its predecessor and then schedules its own.
\<close>

definition observing :: "world \<Rightarrow> bool" where
  "observing wd \<longleftrightarrow> observersOf (svc wd) (instanceID (rdr wd)) \<noteq> []"

definition refreshes :: "world \<Rightarrow> nat" where
  "refreshes wd = length (filter (\<lambda>c. c = RefreshReaderCall) (calls (svc wd)))"

definition cancelCalls :: "nat option \<Rightarrow> call list" where
  "cancelCalls handle =
     (case handle of
        Some h \<Rightarrow> if h \<noteq> 0 then [ClearTimeoutCall h] else []
      | None \<Rightarrow> [])"

fun batchTrace :: "nat \<Rightarrow> nat \<Rightarrow> call list" where
  "batchTrace n 0 = []"
| "batchTrace n (Suc k) = ClearTimeoutCall n # SetTimeoutCall (Suc n) 120 # batchTrace (Suc n) k"

text \<open>The observers that currently observe the body of the reader with a given id.\<close>

definition watchers :: "service \<Rightarrow> string \<Rightarrow> nat" where
  "watchers sv ident = length (observersOf sv ident)"

text \<open>The references of the registry are allocated, no reader has more than one observer,
  and a reader that has one has its handle in its state.\<close>

definition singleWatcher :: "service \<Rightarrow> bool" where
  "singleWatcher sv \<longleftrightarrow>
     (\<forall>ident ref. stateByReader sv ident = Some ref \<longrightarrow> ref < nextState sv)
     \<and> (\<forall>ident. watchers sv ident \<le> 1
          \<and> (0 < watchers sv ident \<longrightarrow>
               (\<exists>ref ob. stateByReader sv ident = Some ref
                  \<and> observer (stateObjects sv ref) = Some ob)))"

text \<open>A pass of \<open>refreshReader\<close> colours when the reader's state is enabled or is yet to be
  created (it is created enabled).\<close>

definition enabledOrNew :: "service \<Rightarrow> ReaderInstance \<Rightarrow> bool" where
  "enabledOrNew sv reader =
     (case stateByReader sv (instanceID reader) of
        None \<Rightarrow> True
      | Some ref \<Rightarrow> enabled (stateObjects sv ref))"

text \<open>The spans a run of \<open>refreshReader\<close> leaves in the reader's window.\<close>

definition passOutput :: "service \<Rightarrow> ReaderInstance \<Rightarrow> span list" where
  "passOutput sv reader =
     (case iframeWindow (snd (refreshReader sv reader)) of
        None \<Rightarrow> []
      | Some w \<Rightarrow> textSpans w)"

subsection \<open>Example inputs\<close>

text \<open>
  The two adjacent spans \<^verbatim>\<open>"Hello "\<close> and \<^verbatim>\<open>"world"\<close> of the specification's
  scenario, the same eleven characters split as \<^verbatim>\<open>"Hel"\<close> and \<^verbatim>\<open>"lo world"\<close>,
  an empty span, a span holding one space, a span holding an emoji (a surrogate pair)
  followed by \<^verbatim>\<open>"!"\<close>, a span of 48 letters (one whole cycle), a window in light
  mode showing the first two, readers showing these spans, and the world in which the
  service has just been started for the first reader.
\<close>

definition plainSpan :: "jsstring \<Rightarrow> span" where
  "plainSpan s = \<lparr>childNodes = [TextNode s], beelineOriginal = None, beelineApplied = None\<rparr>"

definition helloSpan :: span where
  "helloSpan = plainSpan [0x48, 0x65, 0x6C, 0x6C, 0x6F, 0x20]"

definition worldSpan :: span where
  "worldSpan = plainSpan [0x77, 0x6F, 0x72, 0x6C, 0x64]"

definition helSpan :: span where
  "helSpan = plainSpan [0x48, 0x65, 0x6C]"

definition loWorldSpan :: span where
  "loWorldSpan = plainSpan [0x6C, 0x6F, 0x20, 0x77, 0x6F, 0x72, 0x6C, 0x64]"

definition emptySpan :: span where
  "emptySpan = \<lparr>childNodes = [], beelineOriginal = None, beelineApplied = None\<rparr>"

definition spaceSpan :: span where
  "spaceSpan = plainSpan [0x20]"

definition emojiSpan :: span where
  "emojiSpan = plainSpan [0xD83D, 0xDE00, 0x21]"

definition longSpan :: span where
  "longSpan = plainSpan (replicate 48 0x61)"

definition lightWindow :: window where
  "lightWindow =
     \<lparr>body = True, textSpans = [helloSpan, worldSpan], themeDark = False, prefersDark = False,
      timeouts = [], nextTimeout = 0\<rparr>"

definition exampleReader :: ReaderInstance where
  "exampleReader =
     \<lparr>instanceID = ''r1'', readerType = ''pdf'', iframeWindow = Some lightWindow,
      toggleButton = None\<rparr>"

definition emojiReader :: ReaderInstance where
  "emojiReader =
     exampleReader\<lparr>iframeWindow := Some (lightWindow\<lparr>textSpans := [emojiSpan, worldSpan]\<rparr>)\<rparr>"

definition longReader :: ReaderInstance where
  "longReader = exampleReader\<lparr>iframeWindow := Some (lightWindow\<lparr>textSpans := [longSpan]\<rparr>)\<rparr>"

definition startWorld :: world where
  "startWorld = \<lparr>svc = start freshService, rdr = exampleReader\<rparr>"

text \<open>An added node that is a text layer, and a mutation batch that adds it.\<close>

definition textLayerNode :: addedNode where
  "textLayerNode = \<lparr>isHTMLElement = True, matchesTextLayer = True, containsTextLayer = False\<rparr>"

definition textLayerBatch :: "MutationRecord list" where
  "textLayerBatch = [textLayerNode] # []"

text \<open>
  The world once the host has rendered the toolbar (the button is there, the observer is
  installed and the first pass has run), its window, and the world after one qualifying
  batch (a timeout is pending).
\<close>

definition readyWindow :: window where
  "readyWindow = lightWindow\<lparr>textSpans := fst (colorizeSpans BLACK 0 [helloSpan, worldSpan])\<rparr>"

definition readyWorld :: world where
  "readyWorld = step startWorld RenderToolbar"

definition busyWorld :: world where
  "busyWorld = step readyWorld (MutationBatch textLayerBatch)"

text \<open>The world after a click on the toggle of the busy world: the reader is disabled.\<close>

definition pausedWorld :: world where
  "pausedWorld = step busyWorld Click"

text \<open>The world after \<^verbatim>\<open>stop\<close> in the busy world, the host's list holding the reader.\<close>

definition stoppedWorld :: world where
  "stoppedWorld =
     \<lparr>svc = fst (stop (svc busyWorld) [rdr busyWorld]),
      rdr = hd (snd (stop (svc busyWorld) [rdr busyWorld]))\<rparr>"

text \<open>The world in which the host has added the emoji span to the text layer after the
  first pass.\<close>

definition grownWorld :: world where
  "grownWorld = step readyWorld (HostAddsSpans [emojiSpan])"

section \<open>Properties\<close>

subsection \<open>Double-precision rounding\<close>

lemmas fl_eval = fl_def ulp_def binade_def pow2_def rne_def expUp.simps expDown.simps
  fadd_def fsub_def fmul_def fdiv_def

lemma pow2_pos: "0 < pow2 e"
  by (simp add: pow2_def)

lemma pow2_powr: "pow2 e = 2 powr (real_of_int e)"
  by (simp add: pow2_def powr_realpow [symmetric] powr_minus divide_simps)

lemma pow2_mono: "a \<le> b \<Longrightarrow> pow2 a \<le> pow2 b"
  by (simp add: pow2_powr)

lemma pow2_half: "pow2 e / 2 = pow2 (e - 1)"
  by (simp add: pow2_powr powr_diff)

lemma pow2_add: "pow2 a * pow2 b = pow2 (a + b)"
  by (simp add: pow2_powr powr_add)

lemma expUp_nonneg: "0 \<le> expUp n x"
proof (induction n arbitrary: x)
  case 0
  show ?case by (simp add: expUp.simps)
next
  case (Suc n)
  show ?case using Suc [of "x / 2"] by (simp add: expUp.simps [of "Suc n"])
qed

lemma expUp_le: "x < 2 ^ Suc k \<Longrightarrow> expUp n x \<le> int k"
proof (induction n arbitrary: x k)
  case 0
  show ?case by (simp add: expUp.simps)
next
  case (Suc n)
  show ?case
  proof (cases "x < 2")
    case True
    then show ?thesis by (simp add: expUp.simps [of "Suc n"])
  next
    case False
    then obtain j where k: "k = Suc j" using Suc.prems by (cases k) auto
    have "x / 2 < 2 ^ Suc j" using Suc.prems k by simp
    from Suc.IH [OF this] show ?thesis using False k by (simp add: expUp.simps [of "Suc n"])
  qed
qed

lemma expDown_nonpos: "expDown n x \<le> 0"
proof (induction n arbitrary: x)
  case 0
  show ?case by (simp add: expDown.simps)
next
  case (Suc n)
  show ?case using Suc [of "x * 2"] by (simp add: expDown.simps [of "Suc n"])
qed

lemma expDown_le: "x < 1 / 2 ^ j \<Longrightarrow> j < n \<Longrightarrow> expDown n x \<le> - int j - 1"
proof (induction n arbitrary: x j)
  case 0
  then show ?case by simp
next
  case (Suc n)
  have "x < 1"
  proof -
    have "(1::real) / 2 ^ j \<le> 1" by simp
    then show ?thesis using Suc.prems(1) by linarith
  qed
  then have e: "expDown (Suc n) x = expDown n (x * 2) - 1"
    by (simp add: expDown.simps [of "Suc n"])
  show ?case
  proof (cases j)
    case 0
    then show ?thesis using e expDown_nonpos [of n "x * 2"] by simp
  next
    case (Suc i)
    have "x * 2 < 1 / 2 ^ i" using Suc.prems(1) Suc by (simp add: field_simps)
    moreover have "i < n" using Suc.prems(2) Suc by simp
    ultimately have "expDown n (x * 2) \<le> - int i - 1" by (rule Suc.IH)
    then show ?thesis using e Suc by simp
  qed
qed

lemma binade_le:
  assumes "\<bar>x\<bar> < pow2 (k + 1)" and "- 1022 \<le> k"
  shows "binade x \<le> k"
proof (cases "0 \<le> k")
  case True
  then have p: "pow2 (k + 1) = 2 ^ Suc (nat k)"
    by (simp add: pow2_def nat_add_distrib)
  show ?thesis
  proof (cases "1 \<le> \<bar>x\<bar>")
    case True
    have "expUp 1023 \<bar>x\<bar> \<le> int (nat k)"
      using assms(1) p by (intro expUp_le) simp
    then show ?thesis using True \<open>0 \<le> k\<close> by (simp add: binade_def)
  next
    case False
    then show ?thesis using expDown_nonpos [of 1022 "\<bar>x\<bar>"] \<open>0 \<le> k\<close>
      by (simp add: binade_def)
  qed
next
  case False
  then have neg: "k + 1 \<le> 0" by simp
  let ?j = "nat (- (k + 1))"
  have p: "pow2 (k + 1) = 1 / 2 ^ ?j"
    using neg by (cases "k + 1 = 0") (simp_all add: pow2_def)
  have lt1: "\<bar>x\<bar> < 1"
  proof -
    have "(1::real) / 2 ^ ?j \<le> 1" by simp
    then show ?thesis using assms(1) p by linarith
  qed
  have "expDown 1022 \<bar>x\<bar> \<le> - int ?j - 1"
    using assms p neg by (intro expDown_le) simp_all
  then show ?thesis using lt1 neg by (simp add: binade_def)
qed

lemma ulp_pos: "0 < ulp x"
  by (simp add: ulp_def pow2_pos)

lemma ulp_le:
  assumes "\<bar>x\<bar> < pow2 (k + 1)" and "- 1022 \<le> k"
  shows "ulp x \<le> pow2 (k - 52)"
  unfolding ulp_def using binade_le [OF assms] by (intro pow2_mono) simp

lemma rne_error: "\<bar>real_of_int (rne y) - y\<bar> \<le> 1 / 2"
proof -
  have "real_of_int \<lfloor>y\<rfloor> \<le> y" and "y < real_of_int \<lfloor>y\<rfloor> + 1" by linarith+
  then show ?thesis by (auto simp: rne_def)
qed

lemma rne_of_int: "rne (real_of_int m) = m"
  by (simp add: rne_def)

lemma fl_error:
  assumes "\<bar>x\<bar> < pow2 (k + 1)" and "- 1022 \<le> k"
  shows "\<bar>fl x - x\<bar> \<le> pow2 (k - 53)"
proof (cases "x = 0")
  case True
  then show ?thesis using pow2_pos [of "k - 53"] by (simp add: fl_def)
next
  case False
  let ?u = "ulp x"
  have u: "0 < ?u" by (rule ulp_pos)
  have "fl x - x = (real_of_int (rne (x / ?u)) - x / ?u) * ?u"
    using False u by (simp add: fl_def field_simps)
  then have "\<bar>fl x - x\<bar> = \<bar>real_of_int (rne (x / ?u)) - x / ?u\<bar> * ?u"
    using u by (simp add: abs_mult)
  also have "\<dots> \<le> (1 / 2) * ?u"
    using u rne_error [of "x / ?u"] by (intro mult_right_mono) simp_all
  also have "\<dots> \<le> (1 / 2) * pow2 (k - 52)"
    using ulp_le [OF assms] by simp
  also have "\<dots> = pow2 (k - 53)"
    using pow2_half [of "k - 52"] by simp
  finally show ?thesis .
qed

lemma fl_of_int:
  assumes "\<bar>n\<bar> < 2 ^ 53"
  shows "fl (real_of_int n) = real_of_int n"
proof (cases "n = 0")
  case True
  then show ?thesis by (simp add: fl_def)
next
  case False
  then have "1 \<le> \<bar>n\<bar>" by linarith
  then have "real_of_int 1 \<le> real_of_int \<bar>n\<bar>" by (simp only: of_int_le_iff)
  then have one: "1 \<le> \<bar>real_of_int n\<bar>" by simp
  let ?e = "expUp 1023 \<bar>real_of_int n\<bar>"
  have lo: "0 \<le> ?e" by (rule expUp_nonneg)
  have "real_of_int \<bar>n\<bar> < real_of_int (2 ^ 53)"
    using assms by (simp only: of_int_less_iff)
  then have "\<bar>real_of_int n\<bar> < 2 ^ Suc 52" by simp
  then have hi: "?e \<le> 52" using expUp_le [of "\<bar>real_of_int n\<bar>" 52 1023] by simp
  let ?m = "nat (52 - ?e)"
  have u: "ulp (real_of_int n) = 1 / 2 ^ ?m"
  proof (cases "?e = 52")
    case True
    then show ?thesis using one by (simp add: ulp_def binade_def pow2_def)
  next
    case False
    then have "?e - 52 < 0" using hi by simp
    then show ?thesis using one by (simp add: ulp_def binade_def pow2_def)
  qed
  have "real_of_int n / ulp (real_of_int n) = real_of_int (n * 2 ^ ?m)"
    by (simp add: u)
  then have "rne (real_of_int n / ulp (real_of_int n)) = n * 2 ^ ?m"
    by (simp only: rne_of_int)
  then show ?thesis using False by (simp add: fl_def u)
qed


lemma blend_bounds:
  fixes a b :: int and u :: real
  assumes "0 \<le> u" "u \<le> 1" "0 \<le> a" "a \<le> 255" "0 \<le> b" "b \<le> 255"
  shows "0 \<le> real_of_int a + (real_of_int b - real_of_int a) * u"
    and "real_of_int a + (real_of_int b - real_of_int a) * u \<le> 255"
proof -
  have eq: "real_of_int a + (real_of_int b - real_of_int a) * u
        = (1 - u) * real_of_int a + u * real_of_int b"
    by (simp add: algebra_simps)
  have p1: "0 \<le> (1 - u) * real_of_int a" using assms by simp
  have p2: "0 \<le> u * real_of_int b" using assms by simp
  show "0 \<le> real_of_int a + (real_of_int b - real_of_int a) * u"
    using eq p1 p2 by linarith
  have q1: "(1 - u) * real_of_int a \<le> (1 - u) * 255"
    using assms by (intro mult_left_mono) auto
  have q2: "u * real_of_int b \<le> u * 255"
    using assms by (intro mult_left_mono) auto
  show "real_of_int a + (real_of_int b - real_of_int a) * u \<le> 255"
    using eq q1 q2 by (simp add: algebra_simps)
qed

lemma pow2_values:
  "pow2 (- 43) = 1 / 8796093022208"
  "pow2 (- 45) = 1 / 35184372088832"
  "pow2 (- 46) = 1 / 70368744177664"
  "pow2 (- 52) = 1 / 4503599627370496"
  "pow2 (- 53) = 1 / 9007199254740992"
  "pow2 (- 54) = 1 / 18014398509481984"
  "pow2 (- 55) = 1 / 36028797018963968"
  by (simp_all add: pow2_def)

lemma channel_close:
  assumes u0: "0 \<le> u0" "u0 \<le> 1" and u: "\<bar>u - u0\<bar> \<le> pow2 (- 52)"
    and a: "inByte (chan A i)" and b: "inByte (chan B i)"
  shows "closeToBlend (channel A B u i) (linearBlend (chan A i) (chan B i) u0)"
    and "inByte (channel A B u i)"
proof -
  let ?a = "chan A i" and ?b = "chan B i"
  let ?d = "real_of_int (?b - ?a)"
  let ?x = "real_of_int ?a + ?d * u0"
  have dl: "\<bar>?b - ?a\<bar> \<le> 255" using a b unfolding inByte_def by linarith
  then have dr: "\<bar>?d\<bar> \<le> 255"
    by (metis of_int_abs of_int_le_iff of_int_numeral)
  have "\<bar>?b - ?a\<bar> < 2 ^ 53" using dl by simp
  then have d: "fsub (real_of_int ?b) (real_of_int ?a) = ?d"
    using fl_of_int [of "?b - ?a"] by (simp add: fsub_def)
  have ub: "\<bar>u\<bar> \<le> 1 + pow2 (- 52)" using u0 u by linarith
  have "\<bar>?d * u\<bar> \<le> 255 * (1 + pow2 (- 52))"
    unfolding abs_mult using dr ub by (intro mult_mono) simp_all
  then have pu: "\<bar>?d * u\<bar> < pow2 (7 + 1)" by (simp add: pow2_def)
  let ?p = "fmul ?d u"
  have pe: "\<bar>?p - ?d * u\<bar> \<le> pow2 (- 46)"
    using fl_error [OF pu] by (simp add: fmul_def)
  have al: "\<bar>real_of_int ?a\<bar> \<le> 255" using a by (simp add: inByte_def)
  have pu': "\<bar>?d * u\<bar> < 256" using pu by (simp add: pow2_def)
  have "\<bar>real_of_int ?a + ?p\<bar> < 512"
    using al pe pu' unfolding pow2_values by argo
  then have "\<bar>real_of_int ?a + ?p\<bar> < pow2 (8 + 1)" by (simp add: pow2_def)
  from fl_error [OF this]
  have se: "\<bar>fadd (real_of_int ?a) ?p - (real_of_int ?a + ?p)\<bar> \<le> pow2 (- 45)"
    by (simp add: fadd_def)
  have "\<bar>?d * u - ?d * u0\<bar> = \<bar>?d\<bar> * \<bar>u - u0\<bar>"
    by (simp add: abs_mult [symmetric] algebra_simps)
  also have "\<dots> \<le> 255 * pow2 (- 52)"
    using dr u by (intro mult_mono) simp_all
  finally have ue: "\<bar>?d * u - ?d * u0\<bar> \<le> 255 * pow2 (- 52)" .
  let ?s = "fadd (real_of_int ?a) ?p"
  have sx: "\<bar>?s - ?x\<bar> \<le> pow2 (- 43)"
    using se pe ue unfolding pow2_values by argo
  have c: "channel A B u i = \<lfloor>?s + 1 / 2\<rfloor>"
    by (simp add: channel_def Math_round_def d)
  have fl1: "real_of_int \<lfloor>?s + 1 / 2\<rfloor> \<le> ?s + 1 / 2"
    and fl2: "?s + 1 / 2 < real_of_int \<lfloor>?s + 1 / 2\<rfloor> + 1" by linarith+
  have x: "linearBlend ?a ?b u0 = ?x"
    by (simp add: linearBlend_def algebra_simps)
  show "closeToBlend (channel A B u i) (linearBlend ?a ?b u0)"
    unfolding closeToBlend_def c x using fl1 fl2 sx unfolding pow2_values by argo
  have lo: "0 \<le> ?x" and hi: "?x \<le> 255"
    using blend_bounds [of u0 ?a ?b] u0 a b by (simp_all add: inByte_def)
  have "0 \<le> ?s + 1 / 2"
    using lo sx unfolding pow2_values by argo
  then have "0 \<le> \<lfloor>?s + 1 / 2\<rfloor>" by simp
  moreover have "?s + 1 / 2 < 256"
    using hi sx unfolding pow2_values by argo
  then have "\<lfloor>?s + 1 / 2\<rfloor> < 256" by (simp add: floor_less_iff)
  then have "\<lfloor>?s + 1 / 2\<rfloor> \<le> 255" by simp
  ultimately show "inByte (channel A B u i)" by (simp add: inByte_def c)
qed

lemma validRgb_consts: "validRgb BLUE" "validRgb RED" "validRgb BLACK" "validRgb WHITE"
  by (simp_all add: validRgb_def inByte_def BLUE_def RED_def BLACK_def WHITE_def)

lemma validRgb_chan: "validRgb c \<Longrightarrow> inByte (chan c i)"
  by (cases c) (auto simp: validRgb_def)

lemma first_half_parameter:
  assumes "0 \<le> t" and "t < 1 / 2"
  shows "\<bar>fmul t 2 - t * 2\<bar> \<le> pow2 (- 52)"
proof -
  have "\<bar>t * 2\<bar> < pow2 (- 1 + 1)" using assms by (simp add: pow2_def)
  from fl_error [OF this] have "\<bar>fmul t 2 - t * 2\<bar> \<le> pow2 (- 54)"
    by (simp add: fmul_def)
  then show ?thesis unfolding pow2_values by argo
qed

lemma second_half_parameter:
  assumes "1 / 2 \<le> t" and "t < 1"
  shows "\<bar>fmul (fsub t (1 / 2)) 2 - (t - 1 / 2) * 2\<bar> \<le> pow2 (- 52)"
proof -
  let ?v = "fsub t (1 / 2)"
  have "\<bar>t - 1 / 2\<bar> < pow2 (- 2 + 1)" using assms by (simp add: pow2_def)
  from fl_error [OF this] have v: "\<bar>?v - (t - 1 / 2)\<bar> \<le> pow2 (- 55)"
    by (simp add: fsub_def)
  have "\<bar>?v * 2\<bar> < 2" using v assms unfolding pow2_values by argo
  then have "\<bar>?v * 2\<bar> < pow2 (0 + 1)" by (simp add: pow2_def)
  from fl_error [OF this] have "\<bar>fmul ?v 2 - ?v * 2\<bar> \<le> pow2 (- 53)"
    by (simp add: fmul_def)
  then show ?thesis using v unfolding pow2_values by argo
qed


lemma digit_index:
  assumes "d < 10"
  shows "indexOf ''0123456789'' (''0123456789'' ! d) = d"
proof -
  have "\<forall>k\<in>set [0..<10]. indexOf ''0123456789'' (''0123456789'' ! k) = k"
    by (simp add: upt_rec)
  then show ?thesis using assms by simp
qed

lemma digit_char:
  assumes "d < 10"
  shows "''0123456789'' ! d \<in> set ''0123456789''"
  using assms by (intro nth_mem) simp

lemma parseDigits_snoc:
  "parseDigits (s @ [c]) = 10 * parseDigits s + indexOf ''0123456789'' c"
  by (simp add: parseDigits_def)

lemma parseDigits_digits: "parseDigits (digits n) = n"
proof (induction n rule: digits.induct)
  case (1 n)
  show ?case
  proof (cases "n < 10")
    case True
    then show ?thesis
      using digit_index [of n] by (simp add: digits.simps [of n] parseDigits_def)
  next
    case False
    then have "parseDigits (digits n) = 10 * (n div 10) + n mod 10"
      using "1.IH" digit_index [of "n mod 10"]
      by (simp add: digits.simps [of n] parseDigits_snoc)
    then show ?thesis by simp
  qed
qed

lemma digits_inj: "digits a = digits b \<Longrightarrow> a = b"
  by (metis parseDigits_digits)

lemma digits_chars: "set (digits n) \<subseteq> set ''0123456789''"
proof (induction n rule: digits.induct)
  case (1 n)
  show ?case
  proof (cases "n < 10")
    case True
    then show ?thesis using digit_char [of n] by (simp add: digits.simps [of n])
  next
    case False
    then show ?thesis
      using "1.IH" digit_char [of "n mod 10"] by (simp add: digits.simps [of n])
  qed
qed

lemma digits_nonempty: "digits n \<noteq> []"
  by (cases "n < 10") (simp_all add: digits.simps [of n])

lemma showInt_inj:
  assumes "showInt a = showInt b"
  shows "a = b"
proof -
  have nominus: "hd (digits n) \<noteq> CHR ''-''" for n
  proof -
    have "hd (digits n) \<in> set (digits n)" using digits_nonempty by simp
    then have "hd (digits n) \<in> set ''0123456789''" using digits_chars by blast
    then show ?thesis by auto
  qed
  show ?thesis
  proof (cases "a < 0")
    case True
    show ?thesis
    proof (cases "b < 0")
      case True
      with \<open>a < 0\<close> assms have "digits (nat (- a)) = digits (nat (- b))"
        by (simp add: showInt_def)
      then have "nat (- a) = nat (- b)" by (rule digits_inj)
      then show ?thesis using True \<open>a < 0\<close> by simp
    next
      case False
      with True assms have "CHR ''-'' # digits (nat (- a)) = digits (nat b)"
        by (simp add: showInt_def)
      then have "hd (digits (nat b)) = CHR ''-''" by (metis list.sel(1))
      then show ?thesis using nominus by blast
    qed
  next
    case False
    show ?thesis
    proof (cases "b < 0")
      case True
      with False assms have "digits (nat a) = CHR ''-'' # digits (nat (- b))"
        by (simp add: showInt_def)
      then have "hd (digits (nat a)) = CHR ''-''" by (metis list.sel(1))
      then show ?thesis using nominus by blast
    next
      case False
      with \<open>\<not> a < 0\<close> assms have "digits (nat a) = digits (nat b)"
        by (simp add: showInt_def)
      then have "nat a = nat b" by (rule digits_inj)
      then show ?thesis using False \<open>\<not> a < 0\<close> by simp
    qed
  qed
qed

lemma showInt_no_comma: "CHR '','' \<notin> set (showInt a)"
proof -
  have "CHR '','' \<notin> set (digits n)" for n
    using digits_chars [of n] by auto
  then show ?thesis by (simp add: showInt_def)
qed

lemma split_at_separator:
  assumes "xs @ c # ys = xs' @ c # ys'" and "c \<notin> set xs" and "c \<notin> set xs'"
  shows "xs = xs' \<and> ys = ys'"
  using assms
proof (induction xs arbitrary: xs')
  case Nil
  then show ?case by (cases xs') auto
next
  case (Cons x xs)
  then show ?case by (cases xs') auto
qed

lemma rgbText_inj:
  assumes "rgbText a b c = rgbText a' b' c'"
  shows "a = a' \<and> b = b' \<and> c = c'"
proof -
  from assms have e1: "showInt a @ CHR '','' # (CHR '' '' # showInt b @ '', '' @ showInt c @ '')'')
      = showInt a' @ CHR '','' # (CHR '' '' # showInt b' @ '', '' @ showInt c' @ '')'')"
    by (simp add: rgbText_def)
  from split_at_separator [OF e1 showInt_no_comma showInt_no_comma]
  have a: "showInt a = showInt a'"
    and e2: "showInt b @ CHR '','' # (CHR '' '' # showInt c @ '')'')
      = showInt b' @ CHR '','' # (CHR '' '' # showInt c' @ '')'')"
    by simp_all
  from split_at_separator [OF e2 showInt_no_comma showInt_no_comma]
  have b: "showInt b = showInt b'" and c: "showInt c = showInt c'"
    by simp_all
  show ?thesis using a b c by (simp add: showInt_inj)
qed

subsection \<open>Colour sampling\<close>

text \<open>
  C7, as the code has it. For every \<open>t\<close> in [0,1) and every end colour with channels in
  [0,255], \<open>sampleColor\<close> returns the text \<^verbatim>\<open>rgb(c0, c1, c2)\<close> of exactly one triple of
  integers. Each of them lies in [0,255] and within \<open>1/2 + 2^-43\<close> of the per-channel
  linear blend that the claim prescribes: the anchor colour towards the accent colour at
  \<open>t*2\<close> when \<open>t < 1/2\<close>, the accent colour towards the end colour at \<open>(t-1/2)*2\<close>
  otherwise. The code evaluates the blend in double arithmetic and rounds the result with
  \<^verbatim>\<open>Math.round\<close>, so the integer is the nearest to the computed blend, which is within
  \<open>2^-43\<close> of the exact one. \<open>sampleColor\<close> is a function of its two arguments alone
  and has a value for every argument.
\<close>

theorem sampleColor_blend:
  assumes "0 \<le> t" and "t < 1" and "validRgb endColor"
  shows "\<exists>c0 c1 c2. sampleColor t endColor = rgbText c0 c1 c2
           \<and> (\<forall>d0 d1 d2. sampleColor t endColor = rgbText d0 d1 d2 \<longrightarrow>
                  d0 = c0 \<and> d1 = c1 \<and> d2 = c2)
           \<and> closeToBlend c0 (specBlend t endColor 0) \<and> inByte c0
           \<and> closeToBlend c1 (specBlend t endColor 1) \<and> inByte c1
           \<and> closeToBlend c2 (specBlend t endColor 2) \<and> inByte c2"
proof (cases "t < 1 / 2")
  case True
  let ?u = "fmul t 2"
  have u0: "0 \<le> t * 2" "t * 2 \<le> 1" using assms True by simp_all
  have u: "\<bar>?u - t * 2\<bar> \<le> pow2 (- 52)"
    using first_half_parameter [OF assms(1) True] .
  have ib: "\<And>i. inByte (chan BLUE i)" "\<And>i. inByte (chan RED i)"
    using validRgb_chan validRgb_consts by blast+
  have b: "\<And>i. inByte (channel BLUE RED ?u i)"
    using channel_close(2) [OF u0 u ib] .
  have n: "\<And>i. closeToBlend (channel BLUE RED ?u i) (specBlend t endColor i)"
    using True channel_close(1) [OF u0 u ib] by (simp add: specBlend_def)
  have s: "sampleColor t endColor =
      rgbText (channel BLUE RED ?u 0) (channel BLUE RED ?u 1) (channel BLUE RED ?u 2)"
    using True by (simp add: sampleColor_def interpolate_def)
  have uniq: "\<forall>d0 d1 d2. sampleColor t endColor = rgbText d0 d1 d2 \<longrightarrow>
      d0 = channel BLUE RED ?u 0 \<and> d1 = channel BLUE RED ?u 1 \<and> d2 = channel BLUE RED ?u 2"
  proof (intro allI impI)
    fix d0 d1 d2
    assume "sampleColor t endColor = rgbText d0 d1 d2"
    then have "rgbText d0 d1 d2 =
        rgbText (channel BLUE RED ?u 0) (channel BLUE RED ?u 1) (channel BLUE RED ?u 2)"
      using s by simp
    from rgbText_inj [OF this]
    show "d0 = channel BLUE RED ?u 0 \<and> d1 = channel BLUE RED ?u 1 \<and> d2 = channel BLUE RED ?u 2" .
  qed
  show ?thesis using s uniq b n by blast
next
  case False
  let ?u = "fmul (fsub t (1 / 2)) 2"
  have u0: "0 \<le> (t - 1 / 2) * 2" "(t - 1 / 2) * 2 \<le> 1" using assms False by simp_all
  have u: "\<bar>?u - (t - 1 / 2) * 2\<bar> \<le> pow2 (- 52)"
    using second_half_parameter [OF _ assms(2)] False by simp
  have ib: "\<And>i. inByte (chan RED i)" "\<And>i. inByte (chan endColor i)"
    using validRgb_chan validRgb_consts assms(3) by blast+
  have b: "\<And>i. inByte (channel RED endColor ?u i)"
    using channel_close(2) [OF u0 u ib] .
  have n: "\<And>i. closeToBlend (channel RED endColor ?u i) (specBlend t endColor i)"
    using False channel_close(1) [OF u0 u ib] by (simp add: specBlend_def)
  have s: "sampleColor t endColor =
      rgbText (channel RED endColor ?u 0) (channel RED endColor ?u 1) (channel RED endColor ?u 2)"
    using False by (simp add: sampleColor_def interpolate_def)
  have uniq: "\<forall>d0 d1 d2. sampleColor t endColor = rgbText d0 d1 d2 \<longrightarrow>
      d0 = channel RED endColor ?u 0 \<and> d1 = channel RED endColor ?u 1
      \<and> d2 = channel RED endColor ?u 2"
  proof (intro allI impI)
    fix d0 d1 d2
    assume "sampleColor t endColor = rgbText d0 d1 d2"
    then have "rgbText d0 d1 d2 =
        rgbText (channel RED endColor ?u 0) (channel RED endColor ?u 1) (channel RED endColor ?u 2)"
      using s by simp
    from rgbText_inj [OF this]
    show "d0 = channel RED endColor ?u 0 \<and> d1 = channel RED endColor ?u 1
      \<and> d2 = channel RED endColor ?u 2" .
  qed
  show ?thesis using s uniq b n by blast
qed

lemmas color_eval = sampleColor_def interpolate_def channel_def
  Math_round_def BLUE_def RED_def BLACK_def WHITE_def rgbText_def showInt_def digits.simps

lemma sample_values:
  "sampleColor (fdiv 0 48) BLACK = ''rgb(26, 115, 232)''"
  "sampleColor (fdiv 6 48) BLACK = ''rgb(75, 96, 184)''"
  "sampleColor (fdiv 44 48) BLACK = ''rgb(51, 26, 39)''"
  "sampleColor (fdiv 44 48) WHITE = ''rgb(238, 210, 214)''"
  by (simp_all add: color_eval fl_eval)

text \<open>
  The colours of one whole cycle, the 48 positions \<open>k / 48\<close>, for the two end colours the
  overlay uses.
\<close>

lemma cycle_black:
  "map (\<lambda>k. sampleColor (fdiv (real k) 48) BLACK) [0..<48] =
     [''rgb(26, 115, 232)'',
      ''rgb(34, 112, 224)'',
      ''rgb(42, 109, 216)'',
      ''rgb(50, 105, 208)'',
      ''rgb(58, 102, 200)'',
      ''rgb(66, 99, 192)'',
      ''rgb(75, 96, 184)'',
      ''rgb(83, 93, 175)'',
      ''rgb(91, 89, 167)'',
      ''rgb(99, 86, 159)'',
      ''rgb(107, 83, 151)'',
      ''rgb(115, 80, 143)'',
      ''rgb(123, 77, 135)'',
      ''rgb(131, 73, 127)'',
      ''rgb(139, 70, 119)'',
      ''rgb(147, 67, 111)'',
      ''rgb(155, 64, 103)'',
      ''rgb(163, 60, 95)'',
      ''rgb(172, 57, 87)'',
      ''rgb(180, 54, 78)'',
      ''rgb(188, 51, 70)'',
      ''rgb(196, 48, 62)'',
      ''rgb(204, 44, 54)'',
      ''rgb(212, 41, 46)'',
      ''rgb(220, 38, 38)'',
      ''rgb(212, 37, 38)'',
      ''rgb(203, 37, 38)'',
      ''rgb(195, 36, 38)'',
      ''rgb(186, 36, 38)'',
      ''rgb(178, 35, 38)'',
      ''rgb(169, 35, 38)'',
      ''rgb(161, 34, 38)'',
      ''rgb(152, 33, 38)'',
      ''rgb(144, 33, 38)'',
      ''rgb(135, 32, 38)'',
      ''rgb(127, 32, 38)'',
      ''rgb(119, 31, 39)'',
      ''rgb(110, 30, 39)'',
      ''rgb(102, 30, 39)'',
      ''rgb(93, 29, 39)'',
      ''rgb(85, 29, 39)'',
      ''rgb(76, 28, 39)'',
      ''rgb(68, 28, 39)'',
      ''rgb(59, 27, 39)'',
      ''rgb(51, 26, 39)'',
      ''rgb(42, 26, 39)'',
      ''rgb(34, 25, 39)'',
      ''rgb(25, 25, 39)'']"
  by (simp add: upt_rec color_eval fl_eval)

lemma cycle_white:
  "map (\<lambda>k. sampleColor (fdiv (real k) 48) WHITE) [0..<48] =
     [''rgb(26, 115, 232)'',
      ''rgb(34, 112, 224)'',
      ''rgb(42, 109, 216)'',
      ''rgb(50, 105, 208)'',
      ''rgb(58, 102, 200)'',
      ''rgb(66, 99, 192)'',
      ''rgb(75, 96, 184)'',
      ''rgb(83, 93, 175)'',
      ''rgb(91, 89, 167)'',
      ''rgb(99, 86, 159)'',
      ''rgb(107, 83, 151)'',
      ''rgb(115, 80, 143)'',
      ''rgb(123, 77, 135)'',
      ''rgb(131, 73, 127)'',
      ''rgb(139, 70, 119)'',
      ''rgb(147, 67, 111)'',
      ''rgb(155, 64, 103)'',
      ''rgb(163, 60, 95)'',
      ''rgb(172, 57, 87)'',
      ''rgb(180, 54, 78)'',
      ''rgb(188, 51, 70)'',
      ''rgb(196, 48, 62)'',
      ''rgb(204, 44, 54)'',
      ''rgb(212, 41, 46)'',
      ''rgb(220, 38, 38)'',
      ''rgb(221, 47, 47)'',
      ''rgb(222, 55, 56)'',
      ''rgb(223, 64, 64)'',
      ''rgb(224, 73, 73)'',
      ''rgb(224, 81, 82)'',
      ''rgb(225, 90, 91)'',
      ''rgb(226, 98, 100)'',
      ''rgb(227, 107, 108)'',
      ''rgb(228, 116, 117)'',
      ''rgb(229, 124, 126)'',
      ''rgb(230, 133, 135)'',
      ''rgb(231, 142, 144)'',
      ''rgb(231, 150, 152)'',
      ''rgb(232, 159, 161)'',
      ''rgb(233, 167, 170)'',
      ''rgb(234, 176, 179)'',
      ''rgb(235, 185, 187)'',
      ''rgb(236, 193, 196)'',
      ''rgb(237, 202, 205)'',
      ''rgb(238, 210, 214)'',
      ''rgb(238, 219, 223)'',
      ''rgb(239, 228, 231)'',
      ''rgb(240, 236, 240)'']"
  by (simp add: upt_rec color_eval fl_eval)

theorem sampleColor_blend_witness:
  "(0::real) \<le> fdiv 44 48 \<and> fdiv 44 48 < 1 \<and> validRgb WHITE
   \<and> sampleColor (fdiv 44 48) WHITE = rgbText 238 210 214
   \<and> sampleColor (fdiv 44 48) WHITE = ''rgb(238, 210, 214)''
   \<and> closeToBlend 238 (specBlend (fdiv 44 48) WHITE 0) \<and> inByte 238
   \<and> closeToBlend 210 (specBlend (fdiv 44 48) WHITE 1) \<and> inByte 210
   \<and> closeToBlend 214 (specBlend (fdiv 44 48) WHITE 2) \<and> inByte 214
   \<and> (0::real) \<le> fdiv 6 48 \<and> fdiv 6 48 < 1 \<and> validRgb BLACK
   \<and> sampleColor (fdiv 6 48) BLACK = ''rgb(75, 96, 184)''
   \<and> closeToBlend 75 (specBlend (fdiv 6 48) BLACK 0)
   \<and> closeToBlend 96 (specBlend (fdiv 6 48) BLACK 1)
   \<and> closeToBlend 184 (specBlend (fdiv 6 48) BLACK 2)"
proof -
  have t: "(0::real) \<le> fdiv 44 48" "fdiv 44 48 < 1" "(0::real) \<le> fdiv 6 48" "fdiv 6 48 < 1"
    by (simp_all add: fl_eval)
  have v: "validRgb WHITE" "validRgb BLACK" by (rule validRgb_consts)+
  have s: "sampleColor (fdiv 44 48) WHITE = rgbText 238 210 214"
    by (simp add: color_eval fl_eval)
  have s': "sampleColor (fdiv 44 48) WHITE = ''rgb(238, 210, 214)''"
    by (simp add: color_eval fl_eval)
  have r: "sampleColor (fdiv 6 48) BLACK = rgbText 75 96 184"
    by (simp add: color_eval fl_eval)
  have r': "sampleColor (fdiv 6 48) BLACK = ''rgb(75, 96, 184)''"
    by (simp add: color_eval fl_eval)
  from sampleColor_blend [OF t(1,2) v(1)] s
  have a: "closeToBlend 238 (specBlend (fdiv 44 48) WHITE 0) \<and> inByte 238
   \<and> closeToBlend 210 (specBlend (fdiv 44 48) WHITE 1) \<and> inByte 210
   \<and> closeToBlend 214 (specBlend (fdiv 44 48) WHITE 2) \<and> inByte 214"
    by metis
  from sampleColor_blend [OF t(3,4) v(2)] r
  have b: "closeToBlend 75 (specBlend (fdiv 6 48) BLACK 0)
   \<and> closeToBlend 96 (specBlend (fdiv 6 48) BLACK 1)
   \<and> closeToBlend 184 (specBlend (fdiv 6 48) BLACK 2)"
    by metis
  show ?thesis using t v s s' r' a b by simp
qed

text \<open>
  The claim as written fails: the channel is not always the integer nearest to the blend.
  At the double \<open>t = 2971447176821769 / 2^61\<close> the blend of the first channel is
  \<open>53/2 - 151/2^59\<close>, whose only nearest integer is 26; computed in doubles the blend is
  \<open>53/2\<close>, and the code returns 27.
\<close>

theorem sampleColor_not_nearest:
  "fl (2971447176821769 / 2 ^ 61) = 2971447176821769 / 2 ^ 61
   \<and> (0::real) \<le> 2971447176821769 / 2 ^ 61 \<and> (2971447176821769 / 2 ^ 61 :: real) < 1
   \<and> sampleColor (2971447176821769 / 2 ^ 61) BLACK = ''rgb(27, 115, 232)''
   \<and> sampleColor (2971447176821769 / 2 ^ 61) BLACK = rgbText 27 115 232
   \<and> specBlend (2971447176821769 / 2 ^ 61) BLACK 0 = 53 / 2 - 151 / 2 ^ 59
   \<and> \<not> nearestInt 27 (specBlend (2971447176821769 / 2 ^ 61) BLACK 0)
   \<and> nearestInt 26 (specBlend (2971447176821769 / 2 ^ 61) BLACK 0)"
  by (simp add: color_eval fl_eval specBlend_def linearBlend_def nearestInt_def)

subsection \<open>Capturing and restoring the text of a span\<close>


lemma getSourceText_stored:
  "beelineOriginal (snd (getSourceText el)) = Some (fst (getSourceText el))"
  by (simp add: getSourceText_def split: option.splits)

lemma getSourceText_keeps:
  "childNodes (snd (getSourceText el)) = childNodes el"
  "beelineApplied (snd (getSourceText el)) = beelineApplied el"
  by (simp_all add: getSourceText_def split: option.splits)

lemma getSourceText_nonempty:
  "beelineOriginal el = Some orig \<Longrightarrow> orig \<noteq> [] \<Longrightarrow> getSourceText el = (orig, el)"
  by (simp add: getSourceText_def)

lemma getSourceText_empty:
  "fst (getSourceText el) = [] \<Longrightarrow> snd (getSourceText el) = el\<lparr>beelineOriginal := Some []\<rparr>"
  by (auto simp: getSourceText_def split: option.splits if_splits)

lemma Array_from_nonempty: "s \<noteq> [] \<Longrightarrow> Array_from s \<noteq> []"
  by (induction s rule: Array_from.induct) auto

lemma concat_Array_from: "concat (Array_from s) = s"
  by (induction s rule: Array_from.induct) auto

lemma colorizeSpan_skip:
  "fst (getSourceText el) = [] \<Longrightarrow> colorizeSpan e k el = (el\<lparr>beelineOriginal := Some []\<rparr>, k)"
  using getSourceText_empty [of el]
  by (cases "getSourceText el") (simp add: colorizeSpan_def)

lemma colorizeSpan_paint:
  "fst (getSourceText el) \<noteq> [] \<Longrightarrow>
   colorizeSpan e k el =
     ((snd (getSourceText el))
        \<lparr>childNodes := fragment e k (Array_from (fst (getSourceText el))),
         beelineApplied := Some ONE\<rparr>,
      k + length (Array_from (fst (getSourceText el))))"
  by (cases "getSourceText el") (simp add: colorizeSpan_def)

lemma colorizeSpan_original:
  "beelineOriginal (fst (colorizeSpan e k el)) = Some (fst (getSourceText el))"
  using getSourceText_stored [of el]
  by (cases "fst (getSourceText el) = []") (simp_all add: colorizeSpan_skip colorizeSpan_paint)

lemma restoreSpan_original: "beelineOriginal (restoreSpan el) = beelineOriginal el"
  by (simp add: restoreSpan_def setTextContent_def)

lemma spanStep_original:
  assumes "beelineOriginal el = Some orig" and "orig \<noteq> []"
  shows "beelineOriginal (spanStep el op) = Some orig"
proof (cases op)
  case (Apply e k)
  then show ?thesis
    using assms colorizeSpan_original [of e k el] by (simp add: getSourceText_nonempty)
next
  case Restore
  then show ?thesis using assms by (simp add: restoreSpan_original)
next
  case (HostSetsChildren ns)
  then show ?thesis using assms by simp
qed

lemma spanRun_original:
  "beelineOriginal el = Some orig \<Longrightarrow> orig \<noteq> [] \<Longrightarrow> beelineOriginal (spanRun el ops) = Some orig"
  unfolding spanRun_def
  by (induction ops arbitrary: el) (simp_all add: spanStep_original)

lemma restoreSpan_marked:
  assumes "beelineApplied el = Some ONE" and "beelineOriginal el = Some orig" and "orig \<noteq> []"
  shows "restoreSpan el = el\<lparr>childNodes := [TextNode orig], beelineApplied := None\<rparr>"
  using assms by (simp add: restoreSpan_def setTextContent_def)

lemma restoreSpan_unmarked: "beelineApplied el \<noteq> Some ONE \<Longrightarrow> restoreSpan el = el"
  by (simp add: restoreSpan_def)

text \<open>
  C2. Once a colouring pass has coloured a span (its source text was not empty), then after
  any further colouring passes, restoring passes and changes of its children by the host,
  a restore of the span while it is marked as coloured replaces its children by one text
  node holding exactly the source text of that first colouring, code unit for code unit,
  and deletes the marker. A span that is not marked is returned unchanged by the restore.
\<close>

theorem restore_exact:
  "(fst (getSourceText el) \<noteq> [] \<longrightarrow>
      beelineApplied (fst (colorizeSpan e k el)) = Some ONE
      \<and> (beelineApplied (spanRun (fst (colorizeSpan e k el)) ops) = Some ONE \<longrightarrow>
           restoreSpan (spanRun (fst (colorizeSpan e k el)) ops) =
             (spanRun (fst (colorizeSpan e k el)) ops)
               \<lparr>childNodes := [TextNode (fst (getSourceText el))], beelineApplied := None\<rparr>
           \<and> textContent (restoreSpan (spanRun (fst (colorizeSpan e k el)) ops)) =
               fst (getSourceText el)))
   \<and> (beelineApplied el \<noteq> Some ONE \<longrightarrow> restoreSpan el = el)"
proof (intro conjI impI)
  assume ne: "fst (getSourceText el) \<noteq> []"
  show "beelineApplied (fst (colorizeSpan e k el)) = Some ONE"
    using ne by (simp add: colorizeSpan_paint)
  assume marked: "beelineApplied (spanRun (fst (colorizeSpan e k el)) ops) = Some ONE"
  have orig: "beelineOriginal (spanRun (fst (colorizeSpan e k el)) ops) = Some (fst (getSourceText el))"
    using spanRun_original [OF colorizeSpan_original ne] .
  show r: "restoreSpan (spanRun (fst (colorizeSpan e k el)) ops) =
             (spanRun (fst (colorizeSpan e k el)) ops)
               \<lparr>childNodes := [TextNode (fst (getSourceText el))], beelineApplied := None\<rparr>"
    using restoreSpan_marked [OF marked orig ne] .
  show "textContent (restoreSpan (spanRun (fst (colorizeSpan e k el)) ops)) = fst (getSourceText el)"
    unfolding r by (simp add: textContent_def)
next
  assume "beelineApplied el \<noteq> Some ONE"
  then show "restoreSpan el = el" by (rule restoreSpan_unmarked)
qed

lemmas span_examples = plainSpan_def helloSpan_def worldSpan_def helSpan_def loWorldSpan_def
  emptySpan_def spaceSpan_def emojiSpan_def

lemmas span_eval = colorizeSpan_def getSourceText_def textContent_def restoreSpan_def
  setTextContent_def fragment_def spanRun_def ONE_def isLead_def isTrail_def

theorem restore_exact_witness:
  "fst (getSourceText emojiSpan) \<noteq> []
   \<and> beelineApplied (spanRun (fst (colorizeSpan BLACK 0 emojiSpan))
        [Restore, HostSetsChildren [TextNode [0x3F]], Apply WHITE 7]) = Some ONE
   \<and> textContent (restoreSpan (spanRun (fst (colorizeSpan BLACK 0 emojiSpan))
        [Restore, HostSetsChildren [TextNode [0x3F]], Apply WHITE 7])) = [0xD83D, 0xDE00, 0x21]
   \<and> beelineApplied emptySpan \<noteq> Some ONE \<and> restoreSpan emptySpan = emptySpan"
  using restore_exact [of emojiSpan BLACK 0 "[Restore, HostSetsChildren [TextNode [0x3F]], Apply WHITE 7]"]
  by (simp add: span_examples span_eval)

subsection \<open>Spans without text\<close>

lemma colorizeSpans_skip:
  "fst (getSourceText el) = [] \<Longrightarrow>
   colorizeSpans e k (el # rest) =
     (el\<lparr>beelineOriginal := Some []\<rparr> # fst (colorizeSpans e k rest), snd (colorizeSpans e k rest))"
  by (simp add: colorizeSpan_skip split: prod.splits)

text \<open>
  C4, as the code has it. A span whose source text is empty is skipped: its children and
  its marker stay as they are (only the empty original is stored), the running offset is
  unchanged, and the spans after it are coloured as if it were absent. A span whose source
  text is not empty, white space or not, is coloured: it is marked, its children are the
  generated characters at the running offset, and the offset advances by the number of its
  code points, which is at least one.
\<close>

theorem empty_span_skipped:
  "(fst (getSourceText el) = [] \<longrightarrow>
      colorizeSpan e k el = (el\<lparr>beelineOriginal := Some []\<rparr>, k)
      \<and> colorizeSpans e k (el # rest) =
          (el\<lparr>beelineOriginal := Some []\<rparr> # fst (colorizeSpans e k rest),
           snd (colorizeSpans e k rest)))
   \<and> (fst (getSourceText el) \<noteq> [] \<longrightarrow>
      beelineApplied (fst (colorizeSpan e k el)) = Some ONE
      \<and> childNodes (fst (colorizeSpan e k el)) = fragment e k (Array_from (fst (getSourceText el)))
      \<and> snd (colorizeSpan e k el) = k + length (Array_from (fst (getSourceText el)))
      \<and> k < snd (colorizeSpan e k el))"
  using Array_from_nonempty [of "fst (getSourceText el)"]
  by (simp add: colorizeSpan_skip colorizeSpan_paint split: prod.splits)

theorem empty_span_skipped_witness:
  "fst (getSourceText emptySpan) = []
   \<and> colorizeSpan BLACK 6 emptySpan = (emptySpan\<lparr>beelineOriginal := Some []\<rparr>, 6)
   \<and> snd (colorizeSpans BLACK 6 [emptySpan, worldSpan]) = snd (colorizeSpans BLACK 6 [worldSpan])
   \<and> fst (getSourceText spaceSpan) \<noteq> []
   \<and> beelineApplied (fst (colorizeSpan BLACK 6 spaceSpan)) = Some ONE
   \<and> snd (colorizeSpan BLACK 6 spaceSpan) = 7"
  using empty_span_skipped [of emptySpan BLACK 6 "[worldSpan]"]
    empty_span_skipped [of spaceSpan BLACK 6 "[]"]
  by (simp add: span_examples span_eval)

text \<open>The claim as written fails for white space: a span holding one space is coloured
  and advances the offset from 0 to 1.\<close>

theorem whitespace_span_colorized:
  "fst (getSourceText spaceSpan) = [0x20] \<and> whitespaceOnly [0x20]
   \<and> colorizeSpan BLACK 0 spaceSpan =
       (\<lparr>childNodes = [CharSpan ''rgb(26, 115, 232)'' [0x20]],
         beelineOriginal = Some [0x20], beelineApplied = Some ONE\<rparr>, 1)"
  by (simp add: whitespaceOnly_def isWhiteSpace_def span_examples span_eval
      CHARACTERS_PER_CYCLE_def color_eval fl_eval)

subsection \<open>Capturing the original once\<close>

text \<open>
  C6, as the code has it. The first colouring pass over a span without a stored original
  stores the span's current text. A stored original that is not empty is what every later
  pass reads, and it is never overwritten, whatever passes, restores and changes by the
  host come later; so coloured content is never stored as the original.
\<close>

theorem original_captured_once:
  "(beelineOriginal el = None \<longrightarrow>
      beelineOriginal (fst (colorizeSpan e k el)) = Some (textContent el))
   \<and> (beelineOriginal el = Some orig \<and> orig \<noteq> [] \<longrightarrow>
        getSourceText (spanRun el ops) = (orig, spanRun el ops)
        \<and> beelineOriginal (spanRun el ops) = Some orig)"
proof (intro conjI impI)
  assume "beelineOriginal el = None"
  then show "beelineOriginal (fst (colorizeSpan e k el)) = Some (textContent el)"
    by (simp add: colorizeSpan_original) (simp add: getSourceText_def)
next
  assume a: "beelineOriginal el = Some orig \<and> orig \<noteq> []"
  then show o: "beelineOriginal (spanRun el ops) = Some orig"
    by (simp add: spanRun_original)
  show "getSourceText (spanRun el ops) = (orig, spanRun el ops)"
    using o a by (simp add: getSourceText_nonempty)
qed

theorem original_captured_once_witness:
  "beelineOriginal helloSpan = None
   \<and> beelineOriginal (fst (colorizeSpan BLACK 0 helloSpan)) = Some (textContent helloSpan)
   \<and> beelineOriginal (fst (colorizeSpan BLACK 0 helloSpan)) = Some [0x48, 0x65, 0x6C, 0x6C, 0x6F, 0x20]
   \<and> [0x48, 0x65, 0x6C, 0x6C, 0x6F, 0x20] \<noteq> ([] :: jsstring)
   \<and> beelineOriginal
       (spanRun (fst (colorizeSpan BLACK 0 helloSpan))
          [HostSetsChildren [TextNode [0x61]], Apply WHITE 3, Restore, Apply BLACK 9])
     = Some [0x48, 0x65, 0x6C, 0x6C, 0x6F, 0x20]"
  using original_captured_once [of helloSpan BLACK 0 "[0x61]" "[]"]
    original_captured_once [of "fst (colorizeSpan BLACK 0 helloSpan)" BLACK 0
      "[0x48, 0x65, 0x6C, 0x6C, 0x6F, 0x20]"
      "[HostSetsChildren [TextNode [0x61]], Apply WHITE 3, Restore, Apply BLACK 9]"]
  by (simp add: span_examples colorizeSpan_original getSourceText_def textContent_def)

text \<open>The claim as written fails for an empty original: it is stored by the first pass
  and, being falsy, replaced by the current text in a later pass once the host has put
  text into the span.\<close>

theorem empty_original_recaptured:
  "beelineOriginal (spanRun emptySpan [Apply BLACK 0]) = Some []
   \<and> beelineOriginal
       (spanRun emptySpan [Apply BLACK 0, HostSetsChildren [TextNode [0x61]], Apply BLACK 0])
     = Some [0x61]"
  by (simp add: span_examples span_eval)

subsection \<open>Code points\<close>

lemma trail_not_lead: "isTrail v \<Longrightarrow> \<not> isLead v"
proof
  assume "isTrail v" and "isLead v"
  then have "(0xDC00 :: 16 word) \<le> v" and "v \<le> 0xDBFF"
    by (simp_all add: isTrail_def isLead_def)
  then have "(0xDC00 :: 16 word) \<le> 0xDBFF" by (rule order_trans)
  then show False by simp
qed

lemma surrogatePairs_skip: "\<not> isLead v \<Longrightarrow> surrogatePairs (v # rest) = surrogatePairs rest"
  by (cases rest) simp_all

lemma surrogatePairs_le: "surrogatePairs s \<le> length s"
  by (induction s rule: surrogatePairs.induct) auto

lemma Array_from_isCodePoint: "list_all isCodePoint (Array_from s)"
  by (induction s rule: Array_from.induct) auto

lemma length_Array_from: "length (Array_from s) + surrogatePairs s = length s"
proof (induction s rule: Array_from.induct)
  case 1
  show ?case by simp
next
  case (2 u)
  show ?case by simp
next
  case (3 u v rest)
  show ?case
  proof (cases "isLead u \<and> isTrail v")
    case True
    then have "surrogatePairs (v # rest) = surrogatePairs rest"
      by (intro surrogatePairs_skip trail_not_lead) simp
    then show ?thesis using True "3.IH"(1) by simp
  next
    case False
    then show ?thesis using "3.IH"(2) by auto
  qed
qed

lemma Array_from_codePointLength: "length (Array_from s) = codePointLength s"
  using length_Array_from [of s] by (simp add: codePointLength_def)

lemma logicalChars_isCodePoint: "list_all isCodePoint (logicalChars spans)"
  by (induction spans) (simp_all add: logicalChars_def Array_from_isCodePoint)

lemma concat_logicalChars:
  "concat (logicalChars spans) = concat (map (\<lambda>el. fst (getSourceText el)) spans)"
  by (induction spans) (simp_all add: logicalChars_def concat_Array_from)

lemma length_logicalChars:
  "length (logicalChars spans) = sum_list (map (\<lambda>el. codePointLength (fst (getSourceText el))) spans)"
  by (induction spans) (simp_all add: logicalChars_def Array_from_codePointLength)

subsection \<open>The gradient across spans\<close>

lemma fragment_append:
  "fragment e k (xs @ ys) = fragment e k xs @ fragment e (k + length xs) ys"
  by (rule nth_equalityI) (auto simp: fragment_def nth_append add.assoc)

lemma gradient_fragment: "gradient e cs = fragment e 0 cs"
  by (simp add: gradient_def fragment_def CHARACTERS_PER_CYCLE_def)

lemma generatedNodes_Cons:
  "generatedNodes (el # rest) =
     (if beelineOriginal el \<noteq> Some [] then childNodes el else []) @ generatedNodes rest"
  by (simp add: generatedNodes_def)

lemma logicalChars_Cons:
  "logicalChars (el # rest) = Array_from (fst (getSourceText el)) @ logicalChars rest"
  by (simp add: logicalChars_def)

lemma colorizeSpans_Cons:
  "colorizeSpans e k (el # rest) =
     (fst (colorizeSpan e k el) # fst (colorizeSpans e (snd (colorizeSpan e k el)) rest),
      snd (colorizeSpans e (snd (colorizeSpan e k el)) rest))"
  by (simp split: prod.splits)

lemma colorizeSpans_gradient:
  "generatedNodes (fst (colorizeSpans e k spans)) = fragment e k (logicalChars spans)
   \<and> snd (colorizeSpans e k spans) = k + length (logicalChars spans)"
proof (induction spans arbitrary: k)
  case Nil
  show ?case by (simp add: generatedNodes_def logicalChars_def fragment_def)
next
  case (Cons el rest)
  show ?case
  proof (cases "fst (getSourceText el) = []")
    case True
    then show ?thesis
      using Cons.IH [of k]
      by (simp add: colorizeSpans_Cons colorizeSpan_skip generatedNodes_Cons logicalChars_Cons
          del: colorizeSpans.simps)
  next
    case False
    then show ?thesis
      using Cons.IH [of "k + length (Array_from (fst (getSourceText el)))"]
        getSourceText_stored [of el]
      by (simp add: colorizeSpans_Cons colorizeSpan_paint generatedNodes_Cons logicalChars_Cons
          fragment_append add.assoc del: colorizeSpans.simps)
  qed
qed

lemma ensure_logCall:
  "ensureReaderState (logCall c sv) reader =
     (fst (ensureReaderState sv reader), logCall c (snd (ensureReaderState sv reader)))"
  by (simp add: ensureReaderState_def logCall_def split: option.splits)

lemma ensure_enabled:
  "enabled (stateObjects (snd (ensureReaderState sv reader)) (fst (ensureReaderState sv reader)))
     = enabledOrNew sv reader"
  by (simp add: ensureReaderState_def enabledOrNew_def initialState_def split: option.splits)

lemma refreshReader_None:
  "iframeWindow reader = None \<Longrightarrow> refreshReader sv reader = (logCall RefreshReaderCall sv, reader)"
  by (simp add: refreshReader_def)

lemma refreshReader_Some:
  "iframeWindow reader = Some w \<Longrightarrow>
   refreshReader sv reader =
     (logCall RefreshReaderCall (snd (ensureReaderState sv reader)),
      reader\<lparr>iframeWindow := Some (w\<lparr>textSpans :=
         (if enabledOrNew sv reader
          then fst (colorizeSpans (endColorFor w) 0 (textSpans w))
          else map restoreSpan (textSpans w))\<rparr>)\<rparr>)"
  unfolding refreshReader_def ensure_logCall
  using ensure_enabled [of sv reader]
  by (simp add: logCall_def)

lemma passOutput_enabled:
  assumes "iframeWindow reader = Some w" and "enabledOrNew sv reader"
  shows "passOutput sv reader = fst (colorizeSpans (endColorFor w) 0 (textSpans w))"
  using assms by (simp add: passOutput_def refreshReader_Some)

lemma gradient_nth:
  "k < length cs \<Longrightarrow>
   gradient e cs ! k = CharSpan (sampleColor (fdiv (real (k mod 48)) 48) e) (cs ! k)"
  by (simp add: gradient_def)

text \<open>
  C1. In a colouring pass of \<open>refreshReader\<close> (the reader has a window and its state is
  enabled) one offset runs through all spans, starting at 0 and never reset: the generated
  character nodes, read in document order across the span boundaries, are the gradient
  over the logical characters of the pass, so the character at global offset \<open>k\<close> has the
  colour \<open>sampleColor ((k mod 48) / 48) endColor\<close>. The offset counts code points: every
  logical character is one code unit or a surrogate pair, together they are the source
  texts, and their number is the number of code units less the surrogate pairs. Hence any
  other division of the same logical characters into spans yields the same generated nodes,
  the same colour at every logical position.
\<close>

theorem gradient_continuity:
  assumes "iframeWindow reader = Some w" and "enabledOrNew sv reader"
  shows "generatedNodes (passOutput sv reader) = gradient (endColorFor w) (logicalChars (textSpans w))
    \<and> (\<forall>k<length (logicalChars (textSpans w)).
          generatedNodes (passOutput sv reader) ! k =
            CharSpan (sampleColor (fdiv (real (k mod 48)) 48) (endColorFor w))
              (logicalChars (textSpans w) ! k))
    \<and> list_all isCodePoint (logicalChars (textSpans w))
    \<and> concat (logicalChars (textSpans w)) = concat (map (\<lambda>el. fst (getSourceText el)) (textSpans w))
    \<and> length (logicalChars (textSpans w))
        = sum_list (map (\<lambda>el. codePointLength (fst (getSourceText el))) (textSpans w))
    \<and> (\<forall>spans'. logicalChars spans' = logicalChars (textSpans w) \<longrightarrow>
          generatedNodes (passOutput sv (reader\<lparr>iframeWindow := Some (w\<lparr>textSpans := spans'\<rparr>)\<rparr>))
            = generatedNodes (passOutput sv reader))"
proof -
  have g: "generatedNodes (passOutput sv reader)
      = gradient (endColorFor w) (logicalChars (textSpans w))"
    using passOutput_enabled [OF assms] colorizeSpans_gradient [of "endColorFor w" 0 "textSpans w"]
    by (simp add: gradient_fragment)
  have s: "generatedNodes (passOutput sv (reader\<lparr>iframeWindow := Some (w\<lparr>textSpans := spans'\<rparr>)\<rparr>))
      = gradient (endColorFor w) (logicalChars spans')" for spans'
  proof -
    have e: "enabledOrNew sv (reader\<lparr>iframeWindow := Some (w\<lparr>textSpans := spans'\<rparr>)\<rparr>)"
      using assms(2) by (simp add: enabledOrNew_def)
    have c: "endColorFor (w\<lparr>textSpans := spans'\<rparr>) = endColorFor w"
      by (simp add: endColorFor_def isDarkTheme_def)
    show ?thesis
      using passOutput_enabled [OF _ e, of "w\<lparr>textSpans := spans'\<rparr>"]
        colorizeSpans_gradient [of "endColorFor w" 0 spans'] c
      by (simp add: gradient_fragment)
  qed
  show ?thesis
    using g s logicalChars_isCodePoint [of "textSpans w"] concat_logicalChars [of "textSpans w"]
      length_logicalChars [of "textSpans w"]
    by (simp add: gradient_nth)
qed

lemmas reader_examples = lightWindow_def exampleReader_def emojiReader_def longReader_def
  startWorld_def freshService_def start_def initialState_def textLayerNode_def textLayerBatch_def

lemmas chars_eval = logicalChars_def span_examples getSourceText_def textContent_def
  isLead_def isTrail_def

theorem gradient_continuity_witness:
  "iframeWindow exampleReader = Some lightWindow
   \<and> enabledOrNew freshService exampleReader
   \<and> (6::nat) < length (logicalChars (textSpans lightWindow))
   \<and> generatedNodes (passOutput freshService exampleReader) ! 0 = CharSpan ''rgb(26, 115, 232)'' [0x48]
   \<and> generatedNodes (passOutput freshService exampleReader) ! 6 = CharSpan ''rgb(75, 96, 184)'' [0x77]
   \<and> logicalChars [helSpan, loWorldSpan] = logicalChars (textSpans lightWindow)
   \<and> generatedNodes (passOutput freshService
         (exampleReader\<lparr>iframeWindow := Some (lightWindow\<lparr>textSpans := [helSpan, loWorldSpan]\<rparr>)\<rparr>))
       = generatedNodes (passOutput freshService exampleReader)
   \<and> iframeWindow emojiReader = Some (lightWindow\<lparr>textSpans := [emojiSpan, worldSpan]\<rparr>)
   \<and> enabledOrNew freshService emojiReader
   \<and> codePointLength [0xD83D, 0xDE00, 0x21] = 2
   \<and> snd (colorizeSpan BLACK 0 emojiSpan) = 2
   \<and> length (logicalChars [emojiSpan, worldSpan]) = 7
   \<and> generatedNodes (passOutput freshService emojiReader) ! 0
       = CharSpan ''rgb(26, 115, 232)'' [0xD83D, 0xDE00]
   \<and> generatedNodes (passOutput freshService emojiReader) ! 1 = CharSpan ''rgb(34, 112, 224)'' [0x21]
   \<and> generatedNodes (passOutput freshService emojiReader) ! 2 = CharSpan ''rgb(42, 109, 216)'' [0x77]"
proof -
  have w: "iframeWindow exampleReader = Some lightWindow"
    by (simp add: exampleReader_def)
  have e: "enabledOrNew freshService exampleReader"
    by (simp add: enabledOrNew_def freshService_def)
  have l: "logicalChars (textSpans lightWindow) =
      map (\<lambda>u. [u]) [0x48, 0x65, 0x6C, 0x6C, 0x6F, 0x20, 0x77, 0x6F, 0x72, 0x6C, 0x64]"
    by (simp add: lightWindow_def chars_eval)
  have l': "logicalChars [helSpan, loWorldSpan] = logicalChars (textSpans lightWindow)"
    unfolding l by (simp add: chars_eval)
  have c: "endColorFor lightWindow = BLACK"
    by (simp add: endColorFor_def isDarkTheme_def lightWindow_def)
  have s0: "sampleColor (fdiv (real (0 mod 48)) 48) BLACK = ''rgb(26, 115, 232)''"
    by (simp add: color_eval fl_eval)
  have s1: "sampleColor (fdiv (real (1 mod 48)) 48) BLACK = ''rgb(34, 112, 224)''"
    by (simp add: color_eval fl_eval)
  have s2: "sampleColor (fdiv (real (2 mod 48)) 48) BLACK = ''rgb(42, 109, 216)''"
    by (simp add: color_eval fl_eval)
  have s6: "sampleColor (fdiv (real (6 mod 48)) 48) BLACK = ''rgb(75, 96, 184)''"
    by (simp add: color_eval fl_eval)
  from gradient_continuity [OF w e]
  have t: "(\<forall>k<length (logicalChars (textSpans lightWindow)).
          generatedNodes (passOutput freshService exampleReader) ! k =
            CharSpan (sampleColor (fdiv (real (k mod 48)) 48) (endColorFor lightWindow))
              (logicalChars (textSpans lightWindow) ! k))"
    and u: "(\<forall>spans'. logicalChars spans' = logicalChars (textSpans lightWindow) \<longrightarrow>
          generatedNodes (passOutput freshService
             (exampleReader\<lparr>iframeWindow := Some (lightWindow\<lparr>textSpans := spans'\<rparr>)\<rparr>))
            = generatedNodes (passOutput freshService exampleReader))"
    by blast+
  have n0: "generatedNodes (passOutput freshService exampleReader) ! 0 = CharSpan ''rgb(26, 115, 232)'' [0x48]"
    using t [rule_format, of 0] s0 by (simp add: l c)
  have n6: "generatedNodes (passOutput freshService exampleReader) ! 6 = CharSpan ''rgb(75, 96, 184)'' [0x77]"
    using t [rule_format, of 6] s6 by (simp add: l c)
  let ?w = "lightWindow\<lparr>textSpans := [emojiSpan, worldSpan]\<rparr>"
  have w2: "iframeWindow emojiReader = Some ?w"
    by (simp add: emojiReader_def exampleReader_def)
  have e2: "enabledOrNew freshService emojiReader"
    by (simp add: enabledOrNew_def freshService_def)
  have l2: "logicalChars [emojiSpan, worldSpan] =
      [0xD83D, 0xDE00] # map (\<lambda>u. [u]) [0x21, 0x77, 0x6F, 0x72, 0x6C, 0x64]"
    by (simp add: chars_eval)
  have c2: "endColorFor ?w = BLACK"
    by (simp add: endColorFor_def isDarkTheme_def lightWindow_def)
  from gradient_continuity [OF w2 e2]
  have t2: "(\<forall>k<length (logicalChars (textSpans ?w)).
          generatedNodes (passOutput freshService emojiReader) ! k =
            CharSpan (sampleColor (fdiv (real (k mod 48)) 48) (endColorFor ?w))
              (logicalChars (textSpans ?w) ! k))"
    by blast
  have m0: "generatedNodes (passOutput freshService emojiReader) ! 0
       = CharSpan ''rgb(26, 115, 232)'' [0xD83D, 0xDE00]"
    using t2 [rule_format, of 0] s0 by (simp add: l2 c2)
  have m1: "generatedNodes (passOutput freshService emojiReader) ! 1 = CharSpan ''rgb(34, 112, 224)'' [0x21]"
    using t2 [rule_format, of 1] s1 by (simp add: l2 c2)
  have m2: "generatedNodes (passOutput freshService emojiReader) ! 2 = CharSpan ''rgb(42, 109, 216)'' [0x77]"
    using t2 [rule_format, of 2] s2 by (simp add: l2 c2)
  have len: "length (logicalChars [emojiSpan, worldSpan]) = 7"
    using l2 by simp
  have cp: "codePointLength [0xD83D, 0xDE00, 0x21] = 2"
    by (simp add: codePointLength_def isLead_def isTrail_def)
  have off: "snd (colorizeSpan BLACK 0 emojiSpan) = 2"
    by (simp add: span_examples colorizeSpan_def getSourceText_def textContent_def
        isLead_def isTrail_def)
  show ?thesis
    using w e n0 n6 l' u [rule_format, OF l'] w2 e2 len m0 m1 m2 cp off by (simp add: l)
qed

subsection \<open>The end colour of a pass\<close>

lemma getSourceText_colorizeSpan:
  "fst (getSourceText (fst (colorizeSpan e k el))) = fst (getSourceText el)"
proof (cases "fst (getSourceText el) = []")
  case True
  then have "textContent el = []"
    by (auto simp: getSourceText_def split: option.splits if_splits)
  then show ?thesis using True
    by (simp add: colorizeSpan_skip) (simp add: getSourceText_def textContent_def)
next
  case False
  then show ?thesis
    using colorizeSpan_original [of e k el]
    by (simp add: getSourceText_def)
qed

lemma logicalChars_colorizeSpans:
  "logicalChars (fst (colorizeSpans e k spans)) = logicalChars spans"
  by (induction spans arbitrary: k)
     (simp_all add: colorizeSpans_Cons logicalChars_Cons getSourceText_colorizeSpan
        del: colorizeSpans.simps(2))

lemma Array_from_single: "\<not> isLead u \<Longrightarrow> Array_from (u # s) = [u] # Array_from s"
  by (cases s) simp_all

lemma Array_from_replicate: "\<not> isLead u \<Longrightarrow> Array_from (replicate n u) = replicate n [u]"
  by (induction n) (simp_all add: Array_from_single)

lemma enabledOrNew_ensure:
  "instanceID reader' = instanceID reader \<Longrightarrow>
   enabledOrNew (logCall c (snd (ensureReaderState sv reader))) reader' = enabledOrNew sv reader"
  by (simp add: enabledOrNew_def ensureReaderState_def logCall_def initialState_def
      split: option.splits)

text \<open>
  C3, as the code has it. Every colouring pass takes its end colour from the window as it
  is when the pass runs: the generated nodes are the gradient whose end colour is the light
  colour (241, 245, 249) when the window is in dark mode (the class \<^verbatim>\<open>theme-dark\<close> or a
  dark preferred colour scheme) and the dark colour (17, 24, 39) when it is in light mode.
  Nothing is cached: whatever the state of the service, and after a first pass, a pass over
  the window with other theme flags uses the end colour of those flags.
\<close>

theorem end_color_fresh:
  assumes "iframeWindow reader = Some w" and "enabledOrNew sv reader"
  shows "generatedNodes (passOutput sv reader) =
           gradient (if themeDark w \<or> prefersDark w then (241, 245, 249) else (17, 24, 39))
             (logicalChars (textSpans w))
    \<and> lightColor (241, 245, 249) \<and> darkColor (17, 24, 39)
    \<and> (\<forall>w1. iframeWindow (snd (refreshReader sv reader)) = Some w1 \<longrightarrow>
          generatedNodes
            (passOutput (fst (refreshReader sv reader))
               ((snd (refreshReader sv reader))
                  \<lparr>iframeWindow := Some (w1\<lparr>themeDark := d, prefersDark := p\<rparr>)\<rparr>))
          = gradient (if d \<or> p then (241, 245, 249) else (17, 24, 39))
              (logicalChars (textSpans w)))"
proof (intro conjI allI impI)
  have c: "endColorFor v = (if themeDark v \<or> prefersDark v then (241, 245, 249) else (17, 24, 39))"
    for v by (simp add: endColorFor_def isDarkTheme_def WHITE_def BLACK_def)
  show "generatedNodes (passOutput sv reader) =
           gradient (if themeDark w \<or> prefersDark w then (241, 245, 249) else (17, 24, 39))
             (logicalChars (textSpans w))"
    using passOutput_enabled [OF assms] colorizeSpans_gradient [of "endColorFor w" 0 "textSpans w"]
    by (simp add: gradient_fragment c)
  show "lightColor (241, 245, 249)" by (simp add: lightColor_def)
  show "darkColor (17, 24, 39)" by (simp add: darkColor_def)
  fix w1
  assume w1: "iframeWindow (snd (refreshReader sv reader)) = Some w1"
  let ?sv = "fst (refreshReader sv reader)"
  let ?w2 = "w1\<lparr>themeDark := d, prefersDark := p\<rparr>"
  let ?r = "(snd (refreshReader sv reader))\<lparr>iframeWindow := Some ?w2\<rparr>"
  have spans: "textSpans w1 = fst (colorizeSpans (endColorFor w) 0 (textSpans w))"
    using w1 assms(2) by (auto simp: refreshReader_Some [OF assms(1)])
  have en: "enabledOrNew ?sv ?r"
    using assms(2) by (simp add: refreshReader_Some [OF assms(1)] enabledOrNew_ensure)
  have "passOutput ?sv ?r = fst (colorizeSpans (endColorFor ?w2) 0 (textSpans ?w2))"
    using passOutput_enabled [OF _ en, of ?w2] by simp
  then show "generatedNodes (passOutput ?sv ?r)
      = gradient (if d \<or> p then (241, 245, 249) else (17, 24, 39)) (logicalChars (textSpans w))"
    using colorizeSpans_gradient [of "endColorFor ?w2" 0 "textSpans ?w2"]
    by (simp add: gradient_fragment c spans logicalChars_colorizeSpans)
qed

theorem end_color_fresh_witness:
  "iframeWindow longReader = Some (lightWindow\<lparr>textSpans := [longSpan]\<rparr>)
   \<and> enabledOrNew freshService longReader
   \<and> length (logicalChars [longSpan]) = 48
   \<and> generatedNodes (passOutput freshService longReader) =
       gradient (17, 24, 39) (logicalChars [longSpan])
   \<and> generatedNodes (passOutput freshService longReader) ! 44 = CharSpan ''rgb(51, 26, 39)'' [0x61]
   \<and> (\<exists>w1. iframeWindow (snd (refreshReader freshService longReader)) = Some w1
        \<and> generatedNodes
            (passOutput (fst (refreshReader freshService longReader))
               ((snd (refreshReader freshService longReader))
                  \<lparr>iframeWindow := Some (w1\<lparr>themeDark := True, prefersDark := False\<rparr>)\<rparr>))
          = gradient (241, 245, 249) (logicalChars [longSpan])
        \<and> generatedNodes
            (passOutput (fst (refreshReader freshService longReader))
               ((snd (refreshReader freshService longReader))
                  \<lparr>iframeWindow := Some (w1\<lparr>themeDark := True, prefersDark := False\<rparr>)\<rparr>)) ! 44
          = CharSpan ''rgb(238, 210, 214)'' [0x61])"
proof -
  let ?w = "lightWindow\<lparr>textSpans := [longSpan]\<rparr>"
  have w: "iframeWindow longReader = Some ?w"
    by (simp add: longReader_def exampleReader_def)
  have e: "enabledOrNew freshService longReader"
    by (simp add: enabledOrNew_def freshService_def)
  have t: "\<not> (themeDark ?w \<or> prefersDark ?w)"
    by (simp add: lightWindow_def)
  have l: "logicalChars [longSpan] = replicate 48 [0x61]"
    by (simp add: logicalChars_def longSpan_def plainSpan_def getSourceText_def textContent_def
        Array_from_replicate isLead_def)
  have k: "(44::nat) mod 48 = 44" by simp
  have b: "gradient (17, 24, 39) (logicalChars [longSpan]) ! 44 = CharSpan ''rgb(51, 26, 39)'' [0x61]"
    using sample_values gradient_nth [of 44 "logicalChars [longSpan]" BLACK]
    by (simp add: l BLACK_def)
  have d: "gradient (241, 245, 249) (logicalChars [longSpan]) ! 44 = CharSpan ''rgb(238, 210, 214)'' [0x61]"
    using sample_values gradient_nth [of 44 "logicalChars [longSpan]" WHITE]
    by (simp add: l WHITE_def)
  obtain w1 where w1: "iframeWindow (snd (refreshReader freshService longReader)) = Some w1"
    by (simp add: refreshReader_Some [OF w])
  show ?thesis
    using w e t w1 b d end_color_fresh [OF w e, where d = True and p = False]
    by (auto simp: l)
qed

text \<open>The claim as written has the colours the other way round: in light mode the end
  colour is (17, 24, 39), which is not light, and in dark mode it is (241, 245, 249), which
  is not dark.\<close>

theorem light_mode_end_color_is_dark:
  "\<not> isDarkTheme lightWindow
   \<and> endColorFor lightWindow = (17, 24, 39)
   \<and> \<not> lightColor (endColorFor lightWindow)
   \<and> isDarkTheme (lightWindow\<lparr>themeDark := True\<rparr>)
   \<and> endColorFor (lightWindow\<lparr>themeDark := True\<rparr>) = (241, 245, 249)
   \<and> \<not> darkColor (endColorFor (lightWindow\<lparr>themeDark := True\<rparr>))"
  by (simp add: isDarkTheme_def endColorFor_def lightWindow_def lightColor_def darkColor_def
      BLACK_def WHITE_def)

subsection \<open>Installing the observer\<close>

lemma observe_noop:
  "stateByReader sv (instanceID reader) = Some ref \<Longrightarrow> observer (stateObjects sv ref) \<noteq> None \<Longrightarrow>
   observeReaderTextLayer sv reader = sv"
  by (simp add: observeReaderTextLayer_def ensureReaderState_def split: option.splits)

lemma ensure_observers: "observers (snd (ensureReaderState sv reader)) = observers sv"
  by (simp add: ensureReaderState_def split: option.splits)

lemma ensure_watchers: "watchers (snd (ensureReaderState sv reader)) ident = watchers sv ident"
  by (simp add: watchers_def observersOf_def ensure_observers)

lemma ensure_lookup:
  "stateByReader (snd (ensureReaderState sv reader)) (instanceID reader)
     = Some (fst (ensureReaderState sv reader))"
  by (simp add: ensureReaderState_def split: option.splits)

lemma ensure_singleWatcher:
  assumes "singleWatcher sv"
  shows "singleWatcher (snd (ensureReaderState sv reader))"
proof (cases "stateByReader sv (instanceID reader)")
  case (Some ref)
  then show ?thesis using assms by (simp add: ensureReaderState_def)
next
  case None
  have r: "\<And>ident ref. stateByReader sv ident = Some ref \<Longrightarrow> ref < nextState sv"
    using assms unfolding singleWatcher_def by blast
  have w: "\<And>ident. watchers sv ident \<le> 1" using assms unfolding singleWatcher_def by blast
  have o: "\<And>ident. 0 < watchers sv ident \<Longrightarrow>
      \<exists>ref ob. stateByReader sv ident = Some ref \<and> observer (stateObjects sv ref) = Some ob"
    using assms unfolding singleWatcher_def by blast
  let ?sv = "snd (ensureReaderState sv reader)"
  have e: "?sv = sv\<lparr>stateByReader := (stateByReader sv)(instanceID reader \<mapsto> nextState sv),
              stateObjects := (stateObjects sv)(nextState sv := initialState),
              nextState := Suc (nextState sv)\<rparr>"
    using None by (simp add: ensureReaderState_def)
  have r': "ref < nextState ?sv" if "stateByReader ?sv ident = Some ref" for ident ref
    using that r [of ident ref] unfolding e by (auto split: if_splits)
  have o': "\<exists>ref ob. stateByReader ?sv ident = Some ref \<and> observer (stateObjects ?sv ref) = Some ob"
    if "0 < watchers ?sv ident" for ident
  proof -
    from that have p: "0 < watchers sv ident" by (simp add: ensure_watchers)
    from o [OF p] obtain ref ob where
      s: "stateByReader sv ident = Some ref" and b: "observer (stateObjects sv ref) = Some ob"
      by blast
    from s None have n: "ident \<noteq> instanceID reader" by auto
    from r [OF s] have "ref \<noteq> nextState sv" by simp
    then show ?thesis using s b n unfolding e by simp
  qed
  show ?thesis
    unfolding singleWatcher_def using r' o' w by (simp add: ensure_watchers)
qed

lemma observe_singleWatcher:
  assumes "singleWatcher sv"
  shows "singleWatcher (observeReaderTextLayer sv reader)"
proof (cases "iframeWindow reader")
  case None
  then show ?thesis using assms by (simp add: observeReaderTextLayer_def)
next
  case (Some w)
  obtain ref sv' where e: "ensureReaderState sv reader = (ref, sv')"
    by (cases "ensureReaderState sv reader")
  have inv': "singleWatcher sv'" using ensure_singleWatcher [OF assms, of reader] e by simp
  have look: "stateByReader sv' (instanceID reader) = Some ref"
    using ensure_lookup [of sv reader] e by simp
  show ?thesis
  proof (cases "observer (stateObjects sv' ref) \<noteq> None \<or> \<not> body w")
    case True
    then show ?thesis using Some e inv' by (auto simp: observeReaderTextLayer_def)
  next
    case False
    then have none: "observer (stateObjects sv' ref) = None" and b: "body w" by auto
    have zero: "watchers sv' (instanceID reader) = 0"
      using inv' look none unfolding singleWatcher_def
      by (metis not_gr_zero option.discI option.inject)
    let ?res = "(updateState ref (\<lambda>state. state\<lparr>observer := Some (length (observers sv'))\<rparr>) sv')
                   \<lparr>observers := observers sv'
                       @ [\<lparr>observed = Some (instanceID reader), callbackState = ref\<rparr>]\<rparr>"
    have res: "observeReaderTextLayer sv reader = ?res"
      using Some e none b by (simp add: observeReaderTextLayer_def)
    have r: "\<And>ident ref. stateByReader sv' ident = Some ref \<Longrightarrow> ref < nextState sv'"
      using inv' unfolding singleWatcher_def by blast
    have w: "\<And>ident. watchers sv' ident \<le> 1" using inv' unfolding singleWatcher_def by blast
    have o: "\<And>ident. 0 < watchers sv' ident \<Longrightarrow>
        \<exists>ref ob. stateByReader sv' ident = Some ref \<and> observer (stateObjects sv' ref) = Some ob"
      using inv' unfolding singleWatcher_def by blast
    have wa: "watchers ?res ident =
        (if ident = instanceID reader then 1 else watchers sv' ident)" for ident
      using zero by (auto simp: watchers_def observersOf_def updateState_def)
    have r': "ref' < nextState ?res" if "stateByReader ?res ident = Some ref'" for ident ref'
      using that r [of ident ref'] by (simp add: updateState_def)
    have o': "\<exists>ref' ob. stateByReader ?res ident = Some ref'
        \<and> observer (stateObjects ?res ref') = Some ob"
      if "0 < watchers ?res ident" for ident
    proof (cases "ident = instanceID reader")
      case True
      then show ?thesis using look by (simp add: updateState_def)
    next
      case False
      with that have "0 < watchers sv' ident" by (simp add: wa)
      from o [OF this] obtain ref' ob where
        "stateByReader sv' ident = Some ref'" and "observer (stateObjects sv' ref') = Some ob"
        by blast
      then show ?thesis by (simp add: updateState_def)
    qed
    have w': "watchers ?res ident \<le> 1" for ident using w [of ident] by (simp add: wa)
    show ?thesis
      unfolding res singleWatcher_def using r' o' w' by blast
  qed
qed

lemma singleWatcher_fresh: "singleWatcher freshService"
  by (simp add: singleWatcher_def watchers_def observersOf_def freshService_def)

lemma foldl_observe_singleWatcher:
  "singleWatcher sv \<Longrightarrow> singleWatcher (foldl observeReaderTextLayer sv readers)"
  by (induction readers arbitrary: sv) (simp_all add: observe_singleWatcher)

text \<open>
  C9. When the state of a reader already holds an observer, \<open>observeReaderTextLayer\<close>
  changes nothing. Consequently, after any number of install calls for any readers,
  starting from the service as \<^verbatim>\<open>start\<close> leaves it, no reader has more than one
  observer on its document body.
\<close>

theorem single_watcher:
  "(\<forall>ref. stateByReader sv (instanceID reader) = Some ref \<and> observer (stateObjects sv ref) \<noteq> None \<longrightarrow>
      observeReaderTextLayer sv reader = sv)
   \<and> watchers (foldl observeReaderTextLayer freshService readers) ident \<le> 1"
  using foldl_observe_singleWatcher [OF singleWatcher_fresh, of readers]
  by (auto simp: observe_noop singleWatcher_def)

theorem single_watcher_witness:
  "stateByReader (observeReaderTextLayer freshService exampleReader) (instanceID exampleReader)
     = Some 0
   \<and> stateObjects (observeReaderTextLayer freshService exampleReader) 0
       = \<lparr>enabled = True, observer = Some 0, refreshTimer = None\<rparr>
   \<and> observer \<lparr>enabled = True, observer = Some 0, refreshTimer = None\<rparr> \<noteq> None
   \<and> observeReaderTextLayer (observeReaderTextLayer freshService exampleReader) exampleReader
       = observeReaderTextLayer freshService exampleReader
   \<and> watchers (foldl observeReaderTextLayer freshService [exampleReader, exampleReader]) ''r1'' = 1"
proof -
  have s: "stateByReader (observeReaderTextLayer freshService exampleReader) (instanceID exampleReader)
     = Some 0"
    by (simp add: observeReaderTextLayer_def ensureReaderState_def freshService_def
        exampleReader_def lightWindow_def updateState_def initialState_def)
  have t: "stateObjects (observeReaderTextLayer freshService exampleReader) 0
       = \<lparr>enabled = True, observer = Some 0, refreshTimer = None\<rparr>"
    by (simp add: observeReaderTextLayer_def ensureReaderState_def freshService_def
        exampleReader_def lightWindow_def updateState_def initialState_def)
  have n: "observeReaderTextLayer (observeReaderTextLayer freshService exampleReader) exampleReader
       = observeReaderTextLayer freshService exampleReader"
    using single_watcher [of "observeReaderTextLayer freshService exampleReader" exampleReader "[]" "''r1''"] s t
    by simp
  have o: "observers (observeReaderTextLayer freshService exampleReader)
      = [\<lparr>observed = Some ''r1'', callbackState = 0\<rparr>]"
    by (simp add: observeReaderTextLayer_def ensureReaderState_def freshService_def
        exampleReader_def lightWindow_def updateState_def initialState_def)
  show ?thesis using s t n o by (simp add: watchers_def observersOf_def)
qed

subsection \<open>Handlers, timers and the events of a reader\<close>

lemma ensure_present:
  "stateByReader sv (instanceID reader) = Some ref \<Longrightarrow> ensureReaderState sv reader = (ref, sv)"
  by (simp add: ensureReaderState_def)

lemma refreshReader_registered:
  assumes "stateByReader sv (instanceID reader) = Some ref" and "iframeWindow reader = Some w"
  shows "refreshReader sv reader =
     (logCall RefreshReaderCall sv,
      reader\<lparr>iframeWindow := Some (w\<lparr>textSpans :=
         (if enabled (stateObjects sv ref)
          then fst (colorizeSpans (endColorFor w) 0 (textSpans w))
          else map restoreSpan (textSpans w))\<rparr>)\<rparr>)"
  using assms by (simp add: refreshReader_Some ensure_present enabledOrNew_def)

lemma coherent_unobserved:
  assumes "coherent \<lparr>svc = sv, rdr = reader\<rparr>" and "stateByReader sv (instanceID reader) = None"
  shows "observersOf sv (instanceID reader) = []" and "timersOf reader = []"
proof -
  show "observersOf sv (instanceID reader) = []"
  proof (cases "observersOf sv (instanceID reader)")
    case Nil
    then show ?thesis .
  next
    case (Cons ob rest)
    then have "ob \<in> set (observersOf sv (instanceID reader))" by simp
    then show ?thesis using assms unfolding coherent_def by auto
  qed
  show "timersOf reader = []"
    using assms unfolding coherent_def pendingTimers_def by auto
qed

lemma coherent_cong:
  assumes "coherent \<lparr>svc = sv, rdr = reader\<rparr>"
    and "instanceID reader' = instanceID reader" and "timersOf reader' = timersOf reader"
    and "observers sv' = observers sv" and "stateByReader sv' = stateByReader sv"
    and "\<And>ref. observer (stateObjects sv' ref) = observer (stateObjects sv ref)"
    and "\<And>ref. refreshTimer (stateObjects sv' ref) = refreshTimer (stateObjects sv ref)"
  shows "coherent \<lparr>svc = sv', rdr = reader'\<rparr>"
  using assms unfolding coherent_def pendingTimers_def observersOf_def by simp

lemma coherent_fresh:
  assumes "observersOf sv' (instanceID reader') = []" and "timersOf reader' = []"
  shows "coherent \<lparr>svc = sv', rdr = reader'\<rparr>"
  using assms unfolding coherent_def pendingTimers_def by simp

lemma ensure_coherent:
  assumes "coherent \<lparr>svc = sv, rdr = reader\<rparr>"
  shows "coherent \<lparr>svc = snd (ensureReaderState sv reader), rdr = reader\<rparr>"
proof (cases "stateByReader sv (instanceID reader)")
  case (Some ref)
  then show ?thesis using assms by (simp add: ensure_present)
next
  case None
  show ?thesis
    using coherent_unobserved [OF assms None]
    by (intro coherent_fresh) (simp_all add: observersOf_def ensure_observers)
qed

lemma refreshReader_instanceID: "instanceID (snd (refreshReader sv reader)) = instanceID reader"
  by (cases "iframeWindow reader") (simp_all add: refreshReader_None refreshReader_Some)

lemma refreshReader_toggleButton: "toggleButton (snd (refreshReader sv reader)) = toggleButton reader"
  by (cases "iframeWindow reader") (simp_all add: refreshReader_None refreshReader_Some)

lemma refreshReader_timersOf: "timersOf (snd (refreshReader sv reader)) = timersOf reader"
  by (cases "iframeWindow reader")
     (simp_all add: refreshReader_None refreshReader_Some timersOf_def)

lemma refreshReader_observers: "observers (fst (refreshReader sv reader)) = observers sv"
  by (cases "iframeWindow reader")
     (simp_all add: refreshReader_None refreshReader_Some ensure_observers logCall_def)

lemma refreshReader_calls:
  "calls (fst (refreshReader sv reader)) = calls sv @ [RefreshReaderCall]"
  by (cases "iframeWindow reader")
     (simp_all add: refreshReader_None refreshReader_Some logCall_def ensureReaderState_def
        split: option.splits)

lemma refreshReader_coherent:
  assumes "coherent \<lparr>svc = sv, rdr = reader\<rparr>"
  shows "coherent \<lparr>svc = fst (refreshReader sv reader), rdr = snd (refreshReader sv reader)\<rparr>"
proof (cases "stateByReader sv (instanceID reader)")
  case None
  show ?thesis
    using coherent_unobserved [OF assms None]
    by (intro coherent_fresh)
       (simp_all add: observersOf_def refreshReader_observers refreshReader_instanceID
          refreshReader_timersOf)
next
  case (Some ref)
  show ?thesis
  proof (cases "iframeWindow reader")
    case None
    then show ?thesis
      using assms by (intro coherent_cong [OF assms]) (simp_all add: refreshReader_None logCall_def)
  next
    case (Some w)
    show ?thesis
      by (intro coherent_cong [OF assms])
         (simp_all add: refreshReader_registered [OF \<open>stateByReader sv (instanceID reader) = Some ref\<close> Some]
            logCall_def timersOf_def Some)
  qed
qed

lemma observe_coherent:
  assumes "coherent \<lparr>svc = sv, rdr = reader\<rparr>"
  shows "coherent \<lparr>svc = observeReaderTextLayer sv reader, rdr = reader\<rparr>"
proof (cases "iframeWindow reader")
  case None
  then show ?thesis using assms by (simp add: observeReaderTextLayer_def)
next
  case (Some w)
  obtain ref sv' where e: "ensureReaderState sv reader = (ref, sv')"
    by (cases "ensureReaderState sv reader")
  have c': "coherent \<lparr>svc = sv', rdr = reader\<rparr>"
    using ensure_coherent [OF assms] e by simp
  have look: "stateByReader sv' (instanceID reader) = Some ref"
    using ensure_lookup [of sv reader] e by simp
  show ?thesis
  proof (cases "observer (stateObjects sv' ref) \<noteq> None \<or> \<not> body w")
    case True
    then show ?thesis using Some e c' by (auto simp: observeReaderTextLayer_def)
  next
    case False
    then have none: "observer (stateObjects sv' ref) = None" and b: "body w" by auto
    have empty: "observersOf sv' (instanceID reader) = []"
    proof (cases "observersOf sv' (instanceID reader)")
      case Nil
      then show ?thesis .
    next
      case (Cons ob rest)
      then have "ob \<in> set (observersOf sv' (instanceID reader))" by simp
      then show ?thesis using c' look none unfolding coherent_def by auto
    qed
    let ?res = "(updateState ref (\<lambda>state. state\<lparr>observer := Some (length (observers sv'))\<rparr>) sv')
                   \<lparr>observers := observers sv'
                       @ [\<lparr>observed = Some (instanceID reader), callbackState = ref\<rparr>]\<rparr>"
    have res: "observeReaderTextLayer sv reader = ?res"
      using Some e none b by (simp add: observeReaderTextLayer_def)
    have o: "observersOf ?res (instanceID reader)
        = [\<lparr>observed = Some (instanceID reader), callbackState = ref\<rparr>]"
      using empty by (simp add: observersOf_def updateState_def)
    have t: "pendingTimers \<lparr>svc = sv', rdr = reader\<rparr> = []
          \<or> (\<exists>h d ref'. pendingTimers \<lparr>svc = sv', rdr = reader\<rparr> = [(h, d, ref')]
                \<and> stateByReader sv' (instanceID reader) = Some ref'
                \<and> refreshTimer (stateObjects sv' ref') = Some h \<and> 0 < h)"
      using c' unfolding coherent_def by simp
    show ?thesis
      unfolding res coherent_def
      using o look t by (auto simp: updateState_def pendingTimers_def)
  qed
qed

lemma toolbarHandler_coherent:
  assumes "coherent \<lparr>svc = sv, rdr = reader\<rparr>"
  shows "coherent \<lparr>svc = fst (toolbarHandler sv reader), rdr = snd (toolbarHandler sv reader)\<rparr>"
proof (cases "readerType reader \<noteq> ''pdf''")
  case True
  then show ?thesis using assms by (simp add: toolbarHandler_def)
next
  case False
  obtain ref sv' where e: "ensureReaderState sv reader = (ref, sv')"
    by (cases "ensureReaderState sv reader")
  let ?r = "if toggleButton reader = None then reader\<lparr>toggleButton := Some ref\<rparr> else reader"
  have t: "toolbarHandler sv reader = refreshReader (observeReaderTextLayer sv' ?r) ?r"
    using False e by (simp add: toolbarHandler_def)
  have "coherent \<lparr>svc = sv', rdr = reader\<rparr>" using ensure_coherent [OF assms] e by simp
  then have "coherent \<lparr>svc = sv', rdr = ?r\<rparr>"
    by (rule coherent_cong) (simp_all add: timersOf_def)
  then have "coherent \<lparr>svc = observeReaderTextLayer sv' ?r, rdr = ?r\<rparr>" by (rule observe_coherent)
  then show ?thesis unfolding t by (rule refreshReader_coherent)
qed

lemma clickHandler_coherent:
  assumes "coherent \<lparr>svc = sv, rdr = reader\<rparr>"
  shows "coherent \<lparr>svc = fst (clickHandler sv ref reader), rdr = snd (clickHandler sv ref reader)\<rparr>"
proof -
  have "coherent \<lparr>svc = updateState ref (\<lambda>state. state\<lparr>enabled := \<not> enabled state\<rparr>) sv, rdr = reader\<rparr>"
    by (rule coherent_cong [OF assms]) (simp_all add: updateState_def)
  then show ?thesis unfolding clickHandler_def by (rule refreshReader_coherent)
qed

lemma clearTimeout_simps:
  "timeouts (clearTimeout h w) = filter (\<lambda>e. fst e \<noteq> h) (timeouts w)"
  "nextTimeout (clearTimeout h w) = nextTimeout w"
  "textSpans (clearTimeout h w) = textSpans w"
  "endColorFor (clearTimeout h w) = endColorFor w"
  by (simp_all add: clearTimeout_def endColorFor_def isDarkTheme_def)

text \<open>The window in which a batch has cancelled the timeout of the handle it found.\<close>

lemma cancelled_window:
  "timeouts (case handle of Some h \<Rightarrow> if h \<noteq> 0 then clearTimeout h w else w | None \<Rightarrow> w)
     = (case handle of
          Some h \<Rightarrow> if h \<noteq> 0 then filter (\<lambda>e. fst e \<noteq> h) (timeouts w) else timeouts w
        | None \<Rightarrow> timeouts w)"
  "nextTimeout (case handle of Some h \<Rightarrow> if h \<noteq> 0 then clearTimeout h w else w | None \<Rightarrow> w)
     = nextTimeout w"
  "textSpans (case handle of Some h \<Rightarrow> if h \<noteq> 0 then clearTimeout h w else w | None \<Rightarrow> w)
     = textSpans w"
  by (simp_all add: clearTimeout_simps split: option.splits)

lemma cancelled_calls:
  "calls (case handle of Some h \<Rightarrow> if h \<noteq> 0 then logCall (ClearTimeoutCall h) sv else sv | None \<Rightarrow> sv)
     = calls sv @ cancelCalls handle"
  by (simp add: cancelCalls_def logCall_def split: option.splits)

lemma observerCallback_idle:
  "\<not> qualifies b \<or> iframeWindow reader = None \<Longrightarrow> observerCallback sv ref reader b = (sv, reader)"
  by (auto simp: observerCallback_def)

lemma observerCallback_schedules:
  assumes q: "qualifies b" and w: "iframeWindow reader = Some w"
  shows "instanceID (snd (observerCallback sv ref reader b)) = instanceID reader"
    and "toggleButton (snd (observerCallback sv ref reader b)) = toggleButton reader"
    and "spansOfReader (snd (observerCallback sv ref reader b)) = spansOfReader reader"
    and "timersOf (snd (observerCallback sv ref reader b)) =
           (case refreshTimer (stateObjects sv ref) of
              Some h \<Rightarrow> if h \<noteq> 0 then filter (\<lambda>e. fst e \<noteq> h) (timeouts w) else timeouts w
            | None \<Rightarrow> timeouts w) @ [(Suc (nextTimeout w), 120, ref)]"
    and "\<exists>w'. iframeWindow (snd (observerCallback sv ref reader b)) = Some w'
            \<and> nextTimeout w' = Suc (nextTimeout w) \<and> endColorFor w' = endColorFor w"
    and "stateByReader (fst (observerCallback sv ref reader b)) = stateByReader sv"
    and "observers (fst (observerCallback sv ref reader b)) = observers sv"
    and "stateObjects (fst (observerCallback sv ref reader b)) =
           (stateObjects sv)(ref := (stateObjects sv ref)\<lparr>refreshTimer := Some (Suc (nextTimeout w))\<rparr>)"
    and "calls (fst (observerCallback sv ref reader b)) =
           calls sv @ cancelCalls (refreshTimer (stateObjects sv ref))
             @ [SetTimeoutCall (Suc (nextTimeout w)) 120]"
  using q w
  by (simp_all add: observerCallback_def setTimeout_def cancelled_window cancelled_calls
      updateState_def logCall_def timersOf_def spansOfReader_def endColorFor_def isDarkTheme_def
      clearTimeout_def split: option.splits)

lemma observerCallback_coherent:
  assumes c: "coherent \<lparr>svc = sv, rdr = reader\<rparr>"
    and r: "stateByReader sv (instanceID reader) = Some ref"
  shows "coherent \<lparr>svc = fst (observerCallback sv ref reader b),
                   rdr = snd (observerCallback sv ref reader b)\<rparr>"
proof (cases "qualifies b \<and> iframeWindow reader \<noteq> None")
  case False
  then have "observerCallback sv ref reader b = (sv, reader)"
    by (intro observerCallback_idle) auto
  then show ?thesis using c by simp
next
  case True
  then obtain w where q: "qualifies b" and w: "iframeWindow reader = Some w" by auto
  note s = observerCallback_schedules [OF q w, of sv ref]
  have tw: "timersOf reader = timeouts w" using w by (simp add: timersOf_def)
  have e: "(case refreshTimer (stateObjects sv ref) of
              Some h \<Rightarrow> if h \<noteq> 0 then filter (\<lambda>e. fst e \<noteq> h) (timeouts w) else timeouts w
            | None \<Rightarrow> timeouts w) = []"
    using c r tw unfolding coherent_def pendingTimers_def by (auto split: option.splits)
  have o: "observersOf (fst (observerCallback sv ref reader b)) (instanceID reader)
           = observersOf sv (instanceID reader)"
    by (simp add: observersOf_def s(7))
  let ?sv = "fst (observerCallback sv ref reader b)"
  let ?r = "snd (observerCallback sv ref reader b)"
  have obsf: "observer (stateObjects ?sv x) = observer (stateObjects sv x)" for x
    by (simp add: s(8))
  have a: "length (observersOf ?sv (instanceID ?r)) \<le> 1"
    using c unfolding coherent_def by (simp add: s(1) o)
  have b: "\<forall>ob\<in>set (observersOf ?sv (instanceID ?r)).
      stateByReader ?sv (instanceID ?r) = Some (callbackState ob)
      \<and> observer (stateObjects ?sv (callbackState ob)) \<noteq> None"
    using c unfolding coherent_def by (simp add: s(1) o s(6) obsf)
  have t: "pendingTimers \<lparr>svc = ?sv, rdr = ?r\<rparr> = [(Suc (nextTimeout w), 120, ref)]"
    by (simp add: pendingTimers_def s(4) e)
  have rt: "refreshTimer (stateObjects ?sv ref) = Some (Suc (nextTimeout w))"
    by (simp add: s(8))
  have reg: "stateByReader ?sv (instanceID ?r) = Some ref"
    using r by (simp add: s(1) s(6))
  show ?thesis
    unfolding coherent_def using a b t rt reg by auto
qed

lemma coherent_no_timers:
  assumes "coherent \<lparr>svc = sv, rdr = reader\<rparr>"
    and "instanceID reader' = instanceID reader" and "timersOf reader' = []"
    and "observers sv' = observers sv" and "stateByReader sv' = stateByReader sv"
    and "\<And>ref. observer (stateObjects sv' ref) = observer (stateObjects sv ref)"
  shows "coherent \<lparr>svc = sv', rdr = reader'\<rparr>"
  using assms unfolding coherent_def pendingTimers_def observersOf_def by simp

lemma find_handle_None: "find (\<lambda>e. fst e = h) ts = None \<longleftrightarrow> h \<notin> fst ` set ts"
  by (force simp: find_None_iff)

lemma step_HostAddsSpans_coherent: "coherent wd \<Longrightarrow> coherent (step wd (HostAddsSpans spans))"
  by (cases "iframeWindow (rdr wd)")
     (simp_all add: coherent_def pendingTimers_def timersOf_def)

lemma step_MutationBatch_unobserved:
  "observersOf (svc wd) (instanceID (rdr wd)) = [] \<Longrightarrow> step wd (MutationBatch b) = wd"
  by simp

lemma step_MutationBatch_observed:
  assumes c: "coherent wd" and o: "observing wd"
  shows "\<exists>ref. stateByReader (svc wd) (instanceID (rdr wd)) = Some ref
      \<and> step wd (MutationBatch b) =
          \<lparr>svc = fst (observerCallback (svc wd) ref (rdr wd) b),
           rdr = snd (observerCallback (svc wd) ref (rdr wd) b)\<rparr>"
proof -
  obtain ob where l: "observersOf (svc wd) (instanceID (rdr wd)) = [ob]"
    using c o unfolding coherent_def observing_def
    by (cases "observersOf (svc wd) (instanceID (rdr wd))") (auto simp: length_Suc_conv)
  then have "ob \<in> set (observersOf (svc wd) (instanceID (rdr wd)))" by simp
  then have r: "stateByReader (svc wd) (instanceID (rdr wd)) = Some (callbackState ob)"
    using c unfolding coherent_def by blast
  have "step wd (MutationBatch b) =
          \<lparr>svc = fst (observerCallback (svc wd) (callbackState ob) (rdr wd) b),
           rdr = snd (observerCallback (svc wd) (callbackState ob) (rdr wd) b)\<rparr>"
    by (simp add: l deliver_def split: prod.splits)
  then show ?thesis using r by blast
qed

lemma world_eta: "\<lparr>svc = svc wd, rdr = rdr wd\<rparr> = wd"
  by (cases wd) simp

lemma step_TimerFires_absent:
  "h \<notin> fst ` set (pendingTimers wd) \<Longrightarrow> step wd (TimerFires h) = wd"
  by (cases "iframeWindow (rdr wd)")
     (simp_all add: pendingTimers_def timersOf_def find_handle_None [symmetric])

lemma step_TimerFires_pending:
  assumes w: "iframeWindow (rdr wd) = Some w" and f: "find (\<lambda>e. fst e = h) (timeouts w) = Some (h', d, ref)"
  shows "step wd (TimerFires h) =
      \<lparr>svc = fst (refreshReader
                  (logCall ResetTimerField
                     (updateState ref (\<lambda>state. state\<lparr>refreshTimer := None\<rparr>) (svc wd)))
                  ((rdr wd)\<lparr>iframeWindow := Some (clearTimeout h w)\<rparr>)),
       rdr = snd (refreshReader
                  (logCall ResetTimerField
                     (updateState ref (\<lambda>state. state\<lparr>refreshTimer := None\<rparr>) (svc wd)))
                  ((rdr wd)\<lparr>iframeWindow := Some (clearTimeout h w)\<rparr>))\<rparr>"
  using w f by (simp add: timerCallback_def split: prod.splits)

lemma step_coherent:
  assumes "coherent wd"
  shows "coherent (step wd ev)"
proof (cases ev)
  case RenderToolbar
  have "coherent \<lparr>svc = svc wd, rdr = rdr wd\<rparr>" using assms by (cases wd) simp
  then have "coherent \<lparr>svc = fst (toolbarHandler (svc wd) (rdr wd)),
                       rdr = snd (toolbarHandler (svc wd) (rdr wd))\<rparr>"
    by (rule toolbarHandler_coherent)
  then show ?thesis
    using assms unfolding RenderToolbar by (cases "toolbarHandler (svc wd) (rdr wd)") simp
next
  case Click
  show ?thesis
  proof (cases "toggleButton (rdr wd)")
    case None
    then show ?thesis using assms Click by simp
  next
    case (Some ref)
    have "coherent \<lparr>svc = svc wd, rdr = rdr wd\<rparr>" using assms by (cases wd) simp
    then have "coherent \<lparr>svc = fst (clickHandler (svc wd) ref (rdr wd)),
                         rdr = snd (clickHandler (svc wd) ref (rdr wd))\<rparr>"
      by (rule clickHandler_coherent)
    then show ?thesis
      using Some unfolding Click by (cases "clickHandler (svc wd) ref (rdr wd)") simp
  qed
next
  case (HostAddsSpans spans)
  then show ?thesis using assms by (simp only: step_HostAddsSpans_coherent)
next
  case (MutationBatch b)
  show ?thesis
  proof (cases "observing wd")
    case False
    then have "step wd (MutationBatch b) = wd"
      by (intro step_MutationBatch_unobserved) (simp add: observing_def)
    then show ?thesis using assms MutationBatch by simp
  next
    case True
    from step_MutationBatch_observed [OF assms True, of b]
    obtain ref where r: "stateByReader (svc wd) (instanceID (rdr wd)) = Some ref"
      and s: "step wd (MutationBatch b) =
          \<lparr>svc = fst (observerCallback (svc wd) ref (rdr wd) b),
           rdr = snd (observerCallback (svc wd) ref (rdr wd) b)\<rparr>"
      by blast
    have "coherent \<lparr>svc = svc wd, rdr = rdr wd\<rparr>" using assms by (cases wd) simp
    then show ?thesis
      unfolding MutationBatch s using r by (rule observerCallback_coherent)
  qed
next
  case (TimerFires h)
  show ?thesis
  proof (cases "h \<in> fst ` set (pendingTimers wd)")
    case False
    then have "step wd (TimerFires h) = wd" by (rule step_TimerFires_absent)
    then show ?thesis using assms TimerFires by simp
  next
    case True
    then obtain w where w: "iframeWindow (rdr wd) = Some w" and tw: "pendingTimers wd = timeouts w"
      by (cases "iframeWindow (rdr wd)") (simp_all add: pendingTimers_def timersOf_def)
    obtain d ref where one: "timeouts w = [(h, d, ref)]"
      using assms True tw unfolding coherent_def by auto
    have f: "find (\<lambda>e. fst e = h) (timeouts w) = Some (h, d, ref)" by (simp add: one)
    let ?sv = "logCall ResetTimerField
                 (updateState ref (\<lambda>state. state\<lparr>refreshTimer := None\<rparr>) (svc wd))"
    let ?r = "(rdr wd)\<lparr>iframeWindow := Some (clearTimeout h w)\<rparr>"
    have t: "timersOf ?r = []" by (simp add: timersOf_def clearTimeout_simps one)
    have "coherent \<lparr>svc = svc wd, rdr = rdr wd\<rparr>" using assms by (cases wd) simp
    then have "coherent \<lparr>svc = ?sv, rdr = ?r\<rparr>"
      by (rule coherent_no_timers) (simp_all add: t logCall_def updateState_def)
    then show ?thesis
      unfolding TimerFires step_TimerFires_pending [OF w f] by (rule refreshReader_coherent)
  qed
qed

lemma run_Nil: "run wd [] = wd"
  by (simp add: run_def)

lemma run_Cons: "run wd (ev # events) = run (step wd ev) events"
  by (simp add: run_def)

lemma run_append: "run wd (xs @ ys) = run (run wd xs) ys"
  by (simp add: run_def)

lemma run_coherent: "coherent wd \<Longrightarrow> coherent (run wd events)"
  by (induction events arbitrary: wd) (simp_all add: run_Nil run_Cons step_coherent del: step.simps)

lemma coherent_length: "coherent wd \<Longrightarrow> length (pendingTimers wd) \<le> 1"
  unfolding coherent_def by auto

lemma fires_idle:
  "pendingTimers wd = [] \<Longrightarrow> run wd (map TimerFires handles) = wd"
  by (induction handles) (simp_all add: run_Nil run_Cons step_TimerFires_absent del: step.simps)

subsection \<open>Debouncing\<close>

lemma step_MutationBatch_schedules:
  assumes c: "coherent wd" and o: "observing wd" and q: "qualifies b"
    and w: "iframeWindow (rdr wd) = Some w"
  shows "\<exists>ref. stateByReader (svc wd) (instanceID (rdr wd)) = Some ref
           \<and> pendingTimers (step wd (MutationBatch b)) = [(Suc (nextTimeout w), 120, ref)]"
    and "timerHandle (step wd (MutationBatch b)) = Some (Suc (nextTimeout w))"
    and "calls (svc (step wd (MutationBatch b))) =
           calls (svc wd) @ cancelCalls (timerHandle wd) @ [SetTimeoutCall (Suc (nextTimeout w)) 120]"
    and "spansOf (step wd (MutationBatch b)) = spansOf wd"
    and "isEnabled (step wd (MutationBatch b)) = isEnabled wd"
    and "observing (step wd (MutationBatch b))"
    and "\<exists>w'. iframeWindow (rdr (step wd (MutationBatch b))) = Some w'
            \<and> nextTimeout w' = Suc (nextTimeout w) \<and> endColorFor w' = endColorFor w"
    and "stateByReader (svc (step wd (MutationBatch b))) (instanceID (rdr (step wd (MutationBatch b))))
           = stateByReader (svc wd) (instanceID (rdr wd))"
proof -
  from step_MutationBatch_observed [OF c o, of b]
  obtain ref where r: "stateByReader (svc wd) (instanceID (rdr wd)) = Some ref"
    and s: "step wd (MutationBatch b) =
        \<lparr>svc = fst (observerCallback (svc wd) ref (rdr wd) b),
         rdr = snd (observerCallback (svc wd) ref (rdr wd) b)\<rparr>"
    by blast
  note v = observerCallback_schedules [OF q w, of "svc wd" ref]
  have tw: "pendingTimers wd = timeouts w" using w by (simp add: pendingTimers_def timersOf_def)
  have e: "(case refreshTimer (stateObjects (svc wd) ref) of
              Some h \<Rightarrow> if h \<noteq> 0 then filter (\<lambda>e. fst e \<noteq> h) (timeouts w) else timeouts w
            | None \<Rightarrow> timeouts w) = []"
    using c r tw unfolding coherent_def by (auto split: option.splits)
  have p: "pendingTimers (step wd (MutationBatch b)) = [(Suc (nextTimeout w), 120, ref)]"
    unfolding s by (simp add: pendingTimers_def v(4) e)
  show "\<exists>ref. stateByReader (svc wd) (instanceID (rdr wd)) = Some ref
           \<and> pendingTimers (step wd (MutationBatch b)) = [(Suc (nextTimeout w), 120, ref)]"
    using r p by blast
  show "timerHandle (step wd (MutationBatch b)) = Some (Suc (nextTimeout w))"
    unfolding s using r by (simp add: timerHandle_def handleOf_def v(1) v(6) v(8))
  show "calls (svc (step wd (MutationBatch b))) =
           calls (svc wd) @ cancelCalls (timerHandle wd) @ [SetTimeoutCall (Suc (nextTimeout w)) 120]"
    unfolding s using r by (simp add: v(9) timerHandle_def handleOf_def)
  show "spansOf (step wd (MutationBatch b)) = spansOf wd"
    unfolding s by (simp add: spansOf_def v(3))
  show "isEnabled (step wd (MutationBatch b)) = isEnabled wd"
    unfolding s using r by (simp add: isEnabled_def enabledOf_def v(1) v(6) v(8))
  show "observing (step wd (MutationBatch b))"
    unfolding s using o by (simp add: observing_def observersOf_def v(1) v(7))
  show "\<exists>w'. iframeWindow (rdr (step wd (MutationBatch b))) = Some w'
            \<and> nextTimeout w' = Suc (nextTimeout w) \<and> endColorFor w' = endColorFor w"
    unfolding s using v(5) by simp
  show "stateByReader (svc (step wd (MutationBatch b))) (instanceID (rdr (step wd (MutationBatch b))))
           = stateByReader (svc wd) (instanceID (rdr wd))"
    unfolding s by (simp add: v(1) v(6))
qed

lemma batches_run:
  assumes "coherent wd" and "observing wd" and "iframeWindow (rdr wd) = Some w"
    and "batches \<noteq> []" and "list_all qualifies batches"
  shows "(\<exists>ref. stateByReader (svc wd) (instanceID (rdr wd)) = Some ref
           \<and> pendingTimers (run wd (map MutationBatch batches))
               = [(nextTimeout w + length batches, 120, ref)])
    \<and> timerHandle (run wd (map MutationBatch batches)) = Some (nextTimeout w + length batches)
    \<and> calls (svc (run wd (map MutationBatch batches))) =
        calls (svc wd) @ cancelCalls (timerHandle wd)
          @ SetTimeoutCall (Suc (nextTimeout w)) 120
            # batchTrace (Suc (nextTimeout w)) (length batches - 1)
    \<and> spansOf (run wd (map MutationBatch batches)) = spansOf wd
    \<and> isEnabled (run wd (map MutationBatch batches)) = isEnabled wd
    \<and> (\<exists>w'. iframeWindow (rdr (run wd (map MutationBatch batches))) = Some w'
          \<and> endColorFor w' = endColorFor w)"
  using assms
proof (induction batches arbitrary: wd w)
  case Nil
  then show ?case by simp
next
  case (Cons b rest)
  let ?wd = "step wd (MutationBatch b)"
  have q: "qualifies b" using Cons.prems(5) by simp
  note m = step_MutationBatch_schedules [OF Cons.prems(1,2) q Cons.prems(3)]
  obtain ref where r: "stateByReader (svc wd) (instanceID (rdr wd)) = Some ref"
    and p: "pendingTimers ?wd = [(Suc (nextTimeout w), 120, ref)]"
    using m(1) by blast
  obtain w' where w': "iframeWindow (rdr ?wd) = Some w'"
    and n: "nextTimeout w' = Suc (nextTimeout w)" and ec: "endColorFor w' = endColorFor w"
    using m(7) by blast
  have c: "coherent ?wd" using Cons.prems(1) by (rule step_coherent)
  show ?case
  proof (cases "rest = []")
    case True
    then show ?thesis
      using r p m(2) m(3) m(4) m(5) w' ec by (simp add: run_Cons run_Nil del: step.simps)
  next
    case False
    then obtain k where k: "length rest = Suc k" by (cases rest) simp_all
    have "list_all qualifies rest" using Cons.prems(5) by simp
    from Cons.IH [OF c m(6) w' False this]
    show ?thesis
      using n r m(2) m(3) m(4) m(5) m(8) ec k
      by (simp add: run_Cons cancelCalls_def del: step.simps)
  qed
qed

lemma step_TimerFires_fires:
  assumes c: "coherent wd" and p: "pendingTimers wd = [(h, d, ref)]"
    and w: "iframeWindow (rdr wd) = Some w"
  shows "pendingTimers (step wd (TimerFires h)) = []"
    and "timerHandle (step wd (TimerFires h)) = None"
    and "calls (svc (step wd (TimerFires h))) = calls (svc wd) @ [ResetTimerField, RefreshReaderCall]"
    and "spansOf (step wd (TimerFires h)) =
           (if isEnabled wd then fst (colorizeSpans (endColorFor w) 0 (textSpans w))
            else map restoreSpan (textSpans w))"
    and "isEnabled (step wd (TimerFires h)) = isEnabled wd"
proof -
  have tw: "timeouts w = [(h, d, ref)]"
    using p w by (simp add: pendingTimers_def timersOf_def)
  have r: "stateByReader (svc wd) (instanceID (rdr wd)) = Some ref"
    using c p unfolding coherent_def by auto
  have f: "find (\<lambda>e. fst e = h) (timeouts w) = Some (h, d, ref)" by (simp add: tw)
  let ?sv = "logCall ResetTimerField
               (updateState ref (\<lambda>state. state\<lparr>refreshTimer := None\<rparr>) (svc wd))"
  let ?r = "(rdr wd)\<lparr>iframeWindow := Some (clearTimeout h w)\<rparr>"
  have r': "stateByReader ?sv (instanceID ?r) = Some ref"
    using r by (simp add: logCall_def updateState_def)
  have w': "iframeWindow ?r = Some (clearTimeout h w)" by simp
  note s = step_TimerFires_pending [OF w f]
  note g = refreshReader_registered [OF r' w']
  show "pendingTimers (step wd (TimerFires h)) = []"
    unfolding s g by (simp add: pendingTimers_def timersOf_def clearTimeout_simps tw)
  show "timerHandle (step wd (TimerFires h)) = None"
    unfolding s g using r by (simp add: timerHandle_def handleOf_def logCall_def updateState_def)
  show "calls (svc (step wd (TimerFires h))) = calls (svc wd) @ [ResetTimerField, RefreshReaderCall]"
    unfolding s g by (simp add: logCall_def updateState_def)
  show "spansOf (step wd (TimerFires h)) =
           (if isEnabled wd then fst (colorizeSpans (endColorFor w) 0 (textSpans w))
            else map restoreSpan (textSpans w))"
    unfolding s g using r
    by (simp add: spansOf_def spansOfReader_def isEnabled_def enabledOf_def logCall_def
        updateState_def clearTimeout_simps)
  show "isEnabled (step wd (TimerFires h)) = isEnabled wd"
    unfolding s g using r by (simp add: isEnabled_def enabledOf_def logCall_def updateState_def)
qed

lemma startWorld_coherent: "coherent startWorld"
  by (simp add: coherent_def pendingTimers_def timersOf_def observersOf_def startWorld_def
      freshService_def start_def exampleReader_def lightWindow_def)

lemma batchTrace_no_refresh: "filter (\<lambda>c. c = RefreshReaderCall) (batchTrace n k) = []"
  by (induction k arbitrary: n) simp_all

lemma cancelCalls_no_refresh: "filter (\<lambda>c. c = RefreshReaderCall) (cancelCalls handle) = []"
  by (simp add: cancelCalls_def split: option.splits)

text \<open>
  C8. Call a world coherent when at most one observer observes the reader's document, with
  the state object of the registry, and no timeout is pending or exactly one is, whose
  handle that state holds; the world at start is coherent and every event keeps a world
  coherent, so at most one timeout is ever pending for the reader. In a coherent world whose document is observed, \<open>N \<ge> 1\<close>
  qualifying batches delivered with no timeout firing in between (they arrive within the
  coalescing window) make these calls, in this order: the first cancels the handle found
  in the state, if any, and schedules a timeout with delay 120; every later one cancels the
  handle of its predecessor and then schedules its own. They call \<open>refreshReader\<close> not
  once and leave the spans as they are, and exactly one timeout is pending afterwards: the
  one scheduled by the last batch, with delay 120. When it fires, the timer field is reset
  and then \<open>refreshReader\<close> is called, once: the spans become those of a pass over the
  spans as they were, no timeout is pending and the state holds no handle. No handle can
  fire after that, so the batches cause exactly one call of \<open>refreshReader\<close>.
\<close>

theorem debounce_coalesces:
  assumes "coherent wd"
  shows "coherent (run wd events) \<and> length (pendingTimers (run wd events)) \<le> 1
    \<and> (observing wd \<and> iframeWindow (rdr wd) = Some w
         \<and> batches \<noteq> [] \<and> list_all qualifies batches \<longrightarrow>
        (\<exists>ref. stateByReader (svc wd) (instanceID (rdr wd)) = Some ref
           \<and> pendingTimers (run wd (map MutationBatch batches))
               = [(nextTimeout w + length batches, 120, ref)])
        \<and> timerHandle (run wd (map MutationBatch batches)) = Some (nextTimeout w + length batches)
        \<and> calls (svc (run wd (map MutationBatch batches))) =
            calls (svc wd) @ cancelCalls (timerHandle wd)
              @ SetTimeoutCall (Suc (nextTimeout w)) 120
                # batchTrace (Suc (nextTimeout w)) (length batches - 1)
        \<and> refreshes (run wd (map MutationBatch batches)) = refreshes wd
        \<and> spansOf (run wd (map MutationBatch batches)) = spansOf wd
        \<and> calls (svc (run wd (map MutationBatch batches
               @ [TimerFires (nextTimeout w + length batches)])))
            = calls (svc (run wd (map MutationBatch batches))) @ [ResetTimerField, RefreshReaderCall]
        \<and> pendingTimers (run wd (map MutationBatch batches
               @ [TimerFires (nextTimeout w + length batches)])) = []
        \<and> timerHandle (run wd (map MutationBatch batches
               @ [TimerFires (nextTimeout w + length batches)])) = None
        \<and> spansOf (run wd (map MutationBatch batches
               @ [TimerFires (nextTimeout w + length batches)]))
            = (if isEnabled wd then fst (colorizeSpans (endColorFor w) 0 (textSpans w))
               else map restoreSpan (textSpans w))
        \<and> refreshes (run wd (map MutationBatch batches
               @ TimerFires (nextTimeout w + length batches) # map TimerFires handles))
            = refreshes wd + 1)"
proof (intro conjI impI)
  show c: "coherent (run wd events)" using assms by (rule run_coherent)
  show "length (pendingTimers (run wd events)) \<le> 1" using c by (rule coherent_length)
next
  assume a: "observing wd \<and> iframeWindow (rdr wd) = Some w
         \<and> batches \<noteq> [] \<and> list_all qualifies batches"
  let ?h = "nextTimeout w + length batches"
  let ?wd = "run wd (map MutationBatch batches)"
  note b = batches_run [of wd w batches]
  obtain ref where r: "stateByReader (svc wd) (instanceID (rdr wd)) = Some ref"
    and p: "pendingTimers ?wd = [(?h, 120, ref)]"
    using b assms a by blast
  have th: "timerHandle ?wd = Some ?h"
    and cl: "calls (svc ?wd) =
        calls (svc wd) @ cancelCalls (timerHandle wd)
          @ SetTimeoutCall (Suc (nextTimeout w)) 120
            # batchTrace (Suc (nextTimeout w)) (length batches - 1)"
    and sp: "spansOf ?wd = spansOf wd"
    and en: "isEnabled ?wd = isEnabled wd"
    using b assms a by simp_all
  obtain w' where w': "iframeWindow (rdr ?wd) = Some w'" and ec: "endColorFor w' = endColorFor w"
    using b assms a by blast
  have tw: "textSpans w' = textSpans w"
    using sp w' a by (simp add: spansOf_def spansOfReader_def)
  have c1: "coherent ?wd" using assms by (rule run_coherent)
  note f = step_TimerFires_fires [OF c1 p w']
  have rf: "refreshes ?wd = refreshes wd"
    by (simp add: refreshes_def cl batchTrace_no_refresh cancelCalls_no_refresh)
  have one: "run wd (map MutationBatch batches @ [TimerFires ?h]) = step ?wd (TimerFires ?h)"
    by (simp add: run_append run_Cons run_Nil del: step.simps)
  show "\<exists>ref. stateByReader (svc wd) (instanceID (rdr wd)) = Some ref
           \<and> pendingTimers ?wd = [(?h, 120, ref)]"
    using r p by blast
  show "timerHandle ?wd = Some ?h" by (rule th)
  show "calls (svc ?wd) =
        calls (svc wd) @ cancelCalls (timerHandle wd)
          @ SetTimeoutCall (Suc (nextTimeout w)) 120
            # batchTrace (Suc (nextTimeout w)) (length batches - 1)" by (rule cl)
  show "refreshes ?wd = refreshes wd" by (rule rf)
  show "spansOf ?wd = spansOf wd" by (rule sp)
  show "calls (svc (run wd (map MutationBatch batches @ [TimerFires ?h])))
            = calls (svc ?wd) @ [ResetTimerField, RefreshReaderCall]"
    unfolding one by (rule f)
  show "pendingTimers (run wd (map MutationBatch batches @ [TimerFires ?h])) = []"
    unfolding one by (rule f)
  show "timerHandle (run wd (map MutationBatch batches @ [TimerFires ?h])) = None"
    unfolding one by (rule f)
  show "spansOf (run wd (map MutationBatch batches @ [TimerFires ?h]))
            = (if isEnabled wd then fst (colorizeSpans (endColorFor w) 0 (textSpans w))
               else map restoreSpan (textSpans w))"
    unfolding one f(4) by (simp add: en ec tw)
  have "run wd (map MutationBatch batches @ TimerFires ?h # map TimerFires handles)
      = run (step ?wd (TimerFires ?h)) (map TimerFires handles)"
    by (simp add: run_append run_Cons del: step.simps)
  then have "run wd (map MutationBatch batches @ TimerFires ?h # map TimerFires handles)
      = step ?wd (TimerFires ?h)"
    using fires_idle [OF f(1), of handles] by simp
  then show "refreshes (run wd (map MutationBatch batches @ TimerFires ?h # map TimerFires handles))
      = refreshes wd + 1"
    using rf by (simp add: refreshes_def f(3) del: step.simps)
qed

lemmas world_eval = startWorld_def freshService_def start_def exampleReader_def
  toolbarHandler_def ensureReaderState_def observeReaderTextLayer_def refreshReader_def
  lightWindow_def endColorFor_def isDarkTheme_def updateState_def logCall_def initialState_def

lemma readyWorld_eq:
  "readyWorld =
     \<lparr>svc = \<lparr>listening = True, stateByReader = [''r1'' \<mapsto> 0],
             stateObjects = (\<lambda>ref. initialState)
               (0 := \<lparr>enabled = True, observer = Some 0, refreshTimer = None\<rparr>),
             nextState = 1,
             observers = [\<lparr>observed = Some ''r1'', callbackState = 0\<rparr>],
             calls = [RefreshReaderCall]\<rparr>,
      rdr = exampleReader\<lparr>iframeWindow := Some readyWindow, toggleButton := Some 0\<rparr>\<rparr>"
  by (simp add: readyWorld_def readyWindow_def world_eval del: colorizeSpans.simps)

lemma textLayerBatch_qualifies: "qualifies textLayerBatch"
  by (simp add: qualifies_def textLayerBatch_def textLayerNode_def)

lemma busyWorld_eq:
  "busyWorld =
     \<lparr>svc = \<lparr>listening = True, stateByReader = [''r1'' \<mapsto> 0],
             stateObjects = (\<lambda>ref. initialState)
               (0 := \<lparr>enabled = True, observer = Some 0, refreshTimer = Some 1\<rparr>),
             nextState = 1,
             observers = [\<lparr>observed = Some ''r1'', callbackState = 0\<rparr>],
             calls = [RefreshReaderCall, SetTimeoutCall 1 120]\<rparr>,
      rdr = exampleReader\<lparr>iframeWindow :=
                Some (readyWindow\<lparr>timeouts := [(1, 120, 0)], nextTimeout := 1\<rparr>),
              toggleButton := Some 0\<rparr>\<rparr>"
  by (simp add: busyWorld_def readyWorld_eq observersOf_def deliver_def exampleReader_def
      observerCallback_def textLayerBatch_qualifies setTimeout_def readyWindow_def lightWindow_def
      updateState_def logCall_def)

lemma grownWorld_eq:
  "grownWorld =
     \<lparr>svc = svc readyWorld,
      rdr = exampleReader\<lparr>iframeWindow :=
                Some (readyWindow\<lparr>textSpans := textSpans readyWindow @ [emojiSpan]\<rparr>),
              toggleButton := Some 0\<rparr>\<rparr>"
  by (simp add: grownWorld_def readyWorld_eq exampleReader_def)

lemma grownWorld_facts:
  "coherent grownWorld"
  "observing grownWorld"
  "iframeWindow (rdr grownWorld)
     = Some (readyWindow\<lparr>textSpans := textSpans readyWindow @ [emojiSpan]\<rparr>)"
  "nextTimeout readyWindow = 0"
  "calls (svc grownWorld) = [RefreshReaderCall]"
  "timerHandle grownWorld = None"
  "isEnabled grownWorld"
  "spansOf grownWorld = textSpans readyWindow @ [emojiSpan]"
  "stateByReader (svc grownWorld) (instanceID (rdr grownWorld)) = Some 0"
  by (simp_all add: grownWorld_eq readyWorld_eq coherent_def pendingTimers_def timersOf_def
      observing_def observersOf_def exampleReader_def readyWindow_def lightWindow_def
      timerHandle_def handleOf_def isEnabled_def enabledOf_def spansOf_def spansOfReader_def
      del: colorizeSpans.simps)

lemma length_colorizeSpans: "length (fst (colorizeSpans e k spans)) = length spans"
  by (induction spans arbitrary: k) (simp_all add: colorizeSpans_Cons del: colorizeSpans.simps(2))

lemma logicalChars_append: "logicalChars (xs @ ys) = logicalChars xs @ logicalChars ys"
  by (simp add: logicalChars_def)

lemma grown_pass:
  "generatedNodes (fst (colorizeSpans BLACK 0 (textSpans readyWindow @ [emojiSpan]))) ! 11
     = CharSpan ''rgb(115, 80, 143)'' [0xD83D, 0xDE00]"
proof -
  have l: "logicalChars (textSpans readyWindow @ [emojiSpan]) =
      map (\<lambda>u. [u]) [0x48, 0x65, 0x6C, 0x6C, 0x6F, 0x20, 0x77, 0x6F, 0x72, 0x6C, 0x64]
        @ [[0xD83D, 0xDE00], [0x21]]"
  proof -
    have l0: "logicalChars (textSpans readyWindow) = logicalChars [helloSpan, worldSpan]"
      by (simp add: readyWindow_def logicalChars_colorizeSpans del: colorizeSpans.simps)
    have l1: "logicalChars [helloSpan, worldSpan] =
        map (\<lambda>u. [u]) [0x48, 0x65, 0x6C, 0x6C, 0x6F, 0x20, 0x77, 0x6F, 0x72, 0x6C, 0x64]"
      by (simp add: chars_eval)
    have l2: "logicalChars [emojiSpan] = [[0xD83D, 0xDE00], [0x21]]"
      by (simp add: chars_eval)
    show ?thesis unfolding logicalChars_append l0 l1 l2 by simp
  qed
  have s: "sampleColor (fdiv (real (11 mod 48)) 48) BLACK = ''rgb(115, 80, 143)''"
    by (simp add: color_eval fl_eval)
  have "generatedNodes (fst (colorizeSpans BLACK 0 (textSpans readyWindow @ [emojiSpan])))
      = gradient BLACK (logicalChars (textSpans readyWindow @ [emojiSpan]))"
    using colorizeSpans_gradient [of BLACK 0 "textSpans readyWindow @ [emojiSpan]"]
    by (simp add: gradient_fragment)
  then show ?thesis
    using gradient_nth [of 11 "logicalChars (textSpans readyWindow @ [emojiSpan])" BLACK] s
    by (simp add: l)
qed

theorem debounce_coalesces_witness:
  "coherent grownWorld
   \<and> length (pendingTimers (run grownWorld [MutationBatch textLayerBatch, Click, RenderToolbar])) \<le> 1
   \<and> observing grownWorld
   \<and> iframeWindow (rdr grownWorld)
       = Some (readyWindow\<lparr>textSpans := textSpans readyWindow @ [emojiSpan]\<rparr>)
   \<and> [textLayerBatch, textLayerBatch, textLayerBatch] \<noteq> []
   \<and> list_all qualifies [textLayerBatch, textLayerBatch, textLayerBatch]
   \<and> pendingTimers (run grownWorld
        (map MutationBatch [textLayerBatch, textLayerBatch, textLayerBatch])) = [(3, 120, 0)]
   \<and> calls (svc (run grownWorld
        (map MutationBatch [textLayerBatch, textLayerBatch, textLayerBatch])))
       = [RefreshReaderCall, SetTimeoutCall 1 120, ClearTimeoutCall 1, SetTimeoutCall 2 120,
          ClearTimeoutCall 2, SetTimeoutCall 3 120]
   \<and> spansOf (run grownWorld
        (map MutationBatch [textLayerBatch, textLayerBatch, textLayerBatch])) ! 2 = emojiSpan
   \<and> calls (svc (run grownWorld
        (map MutationBatch [textLayerBatch, textLayerBatch, textLayerBatch] @ [TimerFires 3])))
       = [RefreshReaderCall, SetTimeoutCall 1 120, ClearTimeoutCall 1, SetTimeoutCall 2 120,
          ClearTimeoutCall 2, SetTimeoutCall 3 120, ResetTimerField, RefreshReaderCall]
   \<and> pendingTimers (run grownWorld
        (map MutationBatch [textLayerBatch, textLayerBatch, textLayerBatch] @ [TimerFires 3])) = []
   \<and> generatedNodes (spansOf (run grownWorld
        (map MutationBatch [textLayerBatch, textLayerBatch, textLayerBatch] @ [TimerFires 3]))) ! 11
       = CharSpan ''rgb(115, 80, 143)'' [0xD83D, 0xDE00]
   \<and> refreshes grownWorld = 1
   \<and> refreshes (run grownWorld
        (map MutationBatch [textLayerBatch, textLayerBatch, textLayerBatch]
           @ TimerFires 3 # map TimerFires [1, 2, 3])) = 2"
proof -
  have e: "endColorFor (readyWindow\<lparr>textSpans := textSpans readyWindow @ [emojiSpan]\<rparr>) = BLACK"
    by (simp add: endColorFor_def isDarkTheme_def readyWindow_def lightWindow_def)
  have n: "textSpans readyWindow @ [emojiSpan] \<noteq> [] \<and> length (textSpans readyWindow) = 2"
    by (simp add: readyWindow_def length_colorizeSpans del: colorizeSpans.simps)
  have r: "refreshes grownWorld = 1"
    by (simp add: refreshes_def grownWorld_facts)
  show ?thesis
    using debounce_coalesces [OF grownWorld_facts(1),
        of "[MutationBatch textLayerBatch, Click, RenderToolbar]"
           "readyWindow\<lparr>textSpans := textSpans readyWindow @ [emojiSpan]\<rparr>"
           "[textLayerBatch, textLayerBatch, textLayerBatch]" "[1, 2, 3]"]
      grownWorld_facts textLayerBatch_qualifies grown_pass e n r
    by (simp add: numeral_3_eq_3 numeral_2_eq_2 cancelCalls_def nth_append
        del: colorizeSpans.simps)
qed

subsection \<open>The toggle\<close>

lemma restoreSpan_unmarks: "beelineApplied (restoreSpan el) \<noteq> Some ONE"
  by (simp add: restoreSpan_def setTextContent_def)

lemma restoreSpan_idem: "restoreSpan (restoreSpan el) = restoreSpan el"
  using restoreSpan_unmarks [of el] by (rule restoreSpan_unmarked)

lemma restoreSpan_restoredFrom: "restoredFrom el (restoreSpan el)"
  by (auto simp: restoredFrom_def restoreSpan_def setTextContent_def)

lemma restoreSpan_uncoloured: "markerConsistent el \<Longrightarrow> uncoloured (restoreSpan el)"
  by (auto simp: markerConsistent_def uncoloured_def restoreSpan_def setTextContent_def)

lemma restore_pass_restoredFrom: "list_all2 restoredFrom spans (map restoreSpan spans)"
  by (induction spans) (simp_all add: restoreSpan_restoredFrom)

lemma restore_pass_uncoloured:
  "list_all markerConsistent spans \<Longrightarrow> list_all uncoloured (map restoreSpan spans)"
  by (induction spans) (simp_all add: restoreSpan_uncoloured)

lemma colorizeSpan_idem: "colorizeSpan e k (fst (colorizeSpan e k el)) = colorizeSpan e k el"
proof (cases "fst (getSourceText el) = []")
  case True
  then have t: "textContent el = []"
    by (auto simp: getSourceText_def split: option.splits if_splits)
  let ?el = "el\<lparr>beelineOriginal := Some []\<rparr>"
  have "fst (getSourceText ?el) = []"
    using t by (simp add: getSourceText_def textContent_def)
  then have "colorizeSpan e k ?el = (?el\<lparr>beelineOriginal := Some []\<rparr>, k)"
    by (rule colorizeSpan_skip)
  then show ?thesis using True by (simp add: colorizeSpan_skip)
next
  case False
  let ?src = "fst (getSourceText el)"
  let ?el = "(snd (getSourceText el))\<lparr>childNodes := fragment e k (Array_from ?src),
                beelineApplied := Some ONE\<rparr>"
  have g: "getSourceText ?el = (?src, ?el)"
    using False getSourceText_stored [of el] by (simp add: getSourceText_def)
  then have "fst (getSourceText ?el) \<noteq> []" using False by simp
  then have "colorizeSpan e k ?el =
      ((snd (getSourceText ?el))\<lparr>childNodes := fragment e k (Array_from (fst (getSourceText ?el))),
          beelineApplied := Some ONE\<rparr>,
       k + length (Array_from (fst (getSourceText ?el))))"
    by (rule colorizeSpan_paint)
  then show ?thesis using False by (simp add: g colorizeSpan_paint)
qed

lemma colorizeSpans_idem:
  "colorizeSpans e k (fst (colorizeSpans e k spans)) = colorizeSpans e k spans"
proof (induction spans arbitrary: k)
  case Nil
  show ?case by simp
next
  case (Cons el rest)
  show ?case
    using Cons.IH [of "snd (colorizeSpan e k el)"]
    by (simp add: colorizeSpans_Cons colorizeSpan_idem del: colorizeSpans.simps)
qed

lemma step_Click_registered:
  assumes w: "iframeWindow (rdr wd) = Some w" and b: "toggleButton (rdr wd) = Some ref"
    and r: "stateByReader (svc wd) (instanceID (rdr wd)) = Some ref"
  shows "step wd Click =
      \<lparr>svc = logCall RefreshReaderCall
               (updateState ref (\<lambda>state. state\<lparr>enabled := \<not> enabled state\<rparr>) (svc wd)),
       rdr = (rdr wd)\<lparr>iframeWindow := Some (w\<lparr>textSpans :=
               (if enabled (stateObjects (svc wd) ref) then map restoreSpan (textSpans w)
                else fst (colorizeSpans (endColorFor w) 0 (textSpans w)))\<rparr>)\<rparr>\<rparr>"
proof -
  let ?sv = "updateState ref (\<lambda>state. state\<lparr>enabled := \<not> enabled state\<rparr>) (svc wd)"
  have r': "stateByReader ?sv (instanceID (rdr wd)) = Some ref"
    using r by (simp add: updateState_def)
  have c: "clickHandler (svc wd) ref (rdr wd) =
      (logCall RefreshReaderCall ?sv,
       (rdr wd)\<lparr>iframeWindow := Some (w\<lparr>textSpans :=
         (if enabled (stateObjects ?sv ref)
          then fst (colorizeSpans (endColorFor w) 0 (textSpans w))
          else map restoreSpan (textSpans w))\<rparr>)\<rparr>)"
    unfolding clickHandler_def by (rule refreshReader_registered [OF r' w])
  have e: "enabled (stateObjects ?sv ref) = (\<not> enabled (stateObjects (svc wd) ref))"
    by (simp add: updateState_def)
  show ?thesis
    using b by (simp add: c e del: colorizeSpans.simps)
qed

lemma step_TimerFires_registered:
  assumes r: "stateByReader (svc wd) (instanceID (rdr wd)) = Some ref"
    and w: "iframeWindow (rdr wd) = Some w"
  shows "spansOf (step wd (TimerFires h)) =
           (if h \<in> fst ` set (timeouts w)
            then (if enabled (stateObjects (svc wd) ref)
                  then fst (colorizeSpans (endColorFor w) 0 (textSpans w))
                  else map restoreSpan (textSpans w))
            else textSpans w)"
    and "isEnabled (step wd (TimerFires h)) = isEnabled wd"
    and "h \<in> fst ` set (timeouts w) \<Longrightarrow>
         calls (svc (step wd (TimerFires h))) = calls (svc wd) @ [ResetTimerField, RefreshReaderCall]"
proof -
  have pw: "pendingTimers wd = timeouts w" using w by (simp add: pendingTimers_def timersOf_def)
  have sw: "spansOf wd = textSpans w" using w by (simp add: spansOf_def spansOfReader_def)
  have all: "spansOf (step wd (TimerFires h)) =
           (if h \<in> fst ` set (timeouts w)
            then (if enabled (stateObjects (svc wd) ref)
                  then fst (colorizeSpans (endColorFor w) 0 (textSpans w))
                  else map restoreSpan (textSpans w))
            else textSpans w)
      \<and> isEnabled (step wd (TimerFires h)) = isEnabled wd
      \<and> (h \<in> fst ` set (timeouts w) \<longrightarrow>
         calls (svc (step wd (TimerFires h))) = calls (svc wd) @ [ResetTimerField, RefreshReaderCall])"
  proof (cases "find (\<lambda>e. fst e = h) (timeouts w)")
    case None
    then have n: "h \<notin> fst ` set (timeouts w)" by (simp add: find_handle_None)
    then have "step wd (TimerFires h) = wd"
      using pw by (intro step_TimerFires_absent) simp
    then show ?thesis using n sw by simp
  next
    case (Some e)
    obtain h' d ref' where e: "e = (h', d, ref')" by (cases e)
    have y: "h \<in> fst ` set (timeouts w)"
      using Some find_handle_None [of h "timeouts w"] by auto
    let ?sv = "logCall ResetTimerField
                 (updateState ref' (\<lambda>state. state\<lparr>refreshTimer := None\<rparr>) (svc wd))"
    let ?r = "(rdr wd)\<lparr>iframeWindow := Some (clearTimeout h w)\<rparr>"
    have r': "stateByReader ?sv (instanceID ?r) = Some ref"
      using r by (simp add: logCall_def updateState_def)
    have w': "iframeWindow ?r = Some (clearTimeout h w)" by simp
    have en: "enabled (stateObjects ?sv ref) = enabled (stateObjects (svc wd) ref)"
      by (simp add: logCall_def updateState_def)
    note s = step_TimerFires_pending [OF w Some [unfolded e]]
    note g = refreshReader_registered [OF r' w']
    show ?thesis
      unfolding s g en using y r
      by (simp add: spansOf_def spansOfReader_def isEnabled_def enabledOf_def logCall_def
          updateState_def clearTimeout_simps)
  qed
  show "spansOf (step wd (TimerFires h)) =
           (if h \<in> fst ` set (timeouts w)
            then (if enabled (stateObjects (svc wd) ref)
                  then fst (colorizeSpans (endColorFor w) 0 (textSpans w))
                  else map restoreSpan (textSpans w))
            else textSpans w)"
    and "isEnabled (step wd (TimerFires h)) = isEnabled wd"
    and "h \<in> fst ` set (timeouts w) \<Longrightarrow>
         calls (svc (step wd (TimerFires h))) = calls (svc wd) @ [ResetTimerField, RefreshReaderCall]"
    using all by simp_all
qed

text \<open>
  C5, as the code has it. A click on the toggle button of a reader (the button's listener
  holds the state object of the registry) cancels nothing: the only call it makes is that
  of \<open>refreshReader\<close>, and the pending timeouts and the handle in the state are as before.
  It flips the flag and does the work at once: when the reader was enabled every span is
  restored (a marked span holds its stored original as its only text, an unmarked one is
  as it was, and no generated character node is left), when it was disabled the spans are
  coloured with the gradient over their characters. A timeout that fires afterwards does
  run its recomputation, under the flag as it then is: the flag and the spans stay as the
  click left them, so the stale recomputation is not cancelled, and it cannot undo what
  the click did.
\<close>

theorem toggle_keeps_timer:
  assumes "iframeWindow (rdr wd) = Some w" and "toggleButton (rdr wd) = Some ref"
    and "stateByReader (svc wd) (instanceID (rdr wd)) = Some ref"
  shows "pendingTimers (step wd Click) = pendingTimers wd
    \<and> timerHandle (step wd Click) = timerHandle wd
    \<and> calls (svc (step wd Click)) = calls (svc wd) @ [RefreshReaderCall]
    \<and> isEnabled (step wd Click) = (\<not> isEnabled wd)
    \<and> spansOf (step wd Click) =
        (if isEnabled wd then map restoreSpan (textSpans w)
         else fst (colorizeSpans (endColorFor w) 0 (textSpans w)))
    \<and> (isEnabled wd \<longrightarrow>
          list_all2 restoredFrom (textSpans w) (spansOf (step wd Click))
          \<and> (list_all markerConsistent (textSpans w) \<longrightarrow>
                list_all uncoloured (spansOf (step wd Click))))
    \<and> (\<not> isEnabled wd \<longrightarrow>
          generatedNodes (spansOf (step wd Click))
            = gradient (endColorFor w) (logicalChars (textSpans w)))
    \<and> spansOf (step (step wd Click) (TimerFires h)) = spansOf (step wd Click)
    \<and> isEnabled (step (step wd Click) (TimerFires h)) = isEnabled (step wd Click)
    \<and> (h \<in> fst ` set (pendingTimers wd) \<longrightarrow>
          calls (svc (step (step wd Click) (TimerFires h)))
            = calls (svc wd) @ [RefreshReaderCall, ResetTimerField, RefreshReaderCall])"
proof -
  let ?en = "enabled (stateObjects (svc wd) ref)"
  let ?spans = "if ?en then map restoreSpan (textSpans w)
                else fst (colorizeSpans (endColorFor w) 0 (textSpans w))"
  let ?w = "w\<lparr>textSpans := ?spans\<rparr>"
  note s = step_Click_registered [OF assms]
  have en: "isEnabled wd = ?en"
    using assms(3) by (simp add: isEnabled_def enabledOf_def)
  have p: "pendingTimers (step wd Click) = pendingTimers wd"
    unfolding s using assms(1) by (simp add: pendingTimers_def timersOf_def)
  have t: "timerHandle (step wd Click) = timerHandle wd"
    unfolding s using assms(3) by (simp add: timerHandle_def handleOf_def logCall_def updateState_def)
  have c: "calls (svc (step wd Click)) = calls (svc wd) @ [RefreshReaderCall]"
    unfolding s by (simp add: logCall_def updateState_def)
  have e: "isEnabled (step wd Click) = (\<not> isEnabled wd)"
    unfolding s using assms(3) by (simp add: isEnabled_def enabledOf_def logCall_def updateState_def)
  have sp: "spansOf (step wd Click) = ?spans"
    unfolding s by (simp add: spansOf_def spansOfReader_def)
  have r': "stateByReader (svc (step wd Click)) (instanceID (rdr (step wd Click))) = Some ref"
    unfolding s using assms(3) by (simp add: logCall_def updateState_def)
  have w': "iframeWindow (rdr (step wd Click)) = Some ?w"
    unfolding s by simp
  have en': "enabled (stateObjects (svc (step wd Click)) ref) = (\<not> ?en)"
    unfolding s by (simp add: logCall_def updateState_def)
  have ec: "endColorFor ?w = endColorFor w"
    by (simp add: endColorFor_def isDarkTheme_def)
  note f = step_TimerFires_registered [OF r' w', of h]
  have f1: "spansOf (step (step wd Click) (TimerFires h)) = spansOf (step wd Click)"
    unfolding f(1) en' ec sp
    by (simp add: restoreSpan_idem colorizeSpans_idem del: colorizeSpans.simps)
  have f2: "isEnabled (step (step wd Click) (TimerFires h)) = isEnabled (step wd Click)"
    by (rule f(2))
  have f3: "calls (svc (step (step wd Click) (TimerFires h)))
            = calls (svc wd) @ [RefreshReaderCall, ResetTimerField, RefreshReaderCall]"
    if "h \<in> fst ` set (pendingTimers wd)"
    using that f(3) assms(1) c by (simp add: pendingTimers_def timersOf_def del: step.simps)
  have g: "generatedNodes (fst (colorizeSpans (endColorFor w) 0 (textSpans w)))
      = gradient (endColorFor w) (logicalChars (textSpans w))"
    using colorizeSpans_gradient [of "endColorFor w" 0 "textSpans w"]
    by (simp add: gradient_fragment)
  show ?thesis
    using p t c e f1 f2 f3 g
    by (simp add: sp en restore_pass_restoredFrom restore_pass_uncoloured
        del: step.simps colorizeSpans.simps)
qed

lemma busyWorld_facts:
  "iframeWindow (rdr busyWorld) = Some (readyWindow\<lparr>timeouts := [(1, 120, 0)], nextTimeout := 1\<rparr>)"
  "toggleButton (rdr busyWorld) = Some 0"
  "stateByReader (svc busyWorld) (instanceID (rdr busyWorld)) = Some 0"
  "isEnabled busyWorld"
  "pendingTimers busyWorld = [(1, 120, 0)]"
  "timerHandle busyWorld = Some 1"
  "calls (svc busyWorld) = [RefreshReaderCall, SetTimeoutCall 1 120]"
  by (simp_all add: busyWorld_eq exampleReader_def isEnabled_def enabledOf_def pendingTimers_def
      timersOf_def timerHandle_def handleOf_def)

lemma restored_spans:
  "map restoreSpan (textSpans readyWindow) =
     [\<lparr>childNodes = [TextNode [0x48, 0x65, 0x6C, 0x6C, 0x6F, 0x20]],
       beelineOriginal = Some [0x48, 0x65, 0x6C, 0x6C, 0x6F, 0x20], beelineApplied = None\<rparr>,
      \<lparr>childNodes = [TextNode [0x77, 0x6F, 0x72, 0x6C, 0x64]],
       beelineOriginal = Some [0x77, 0x6F, 0x72, 0x6C, 0x64], beelineApplied = None\<rparr>]"
  by (simp add: readyWindow_def span_examples span_eval)

lemma pausedWorld_facts:
  "iframeWindow (rdr pausedWorld) =
     Some (readyWindow\<lparr>textSpans := map restoreSpan (textSpans readyWindow),
             timeouts := [(1, 120, 0)], nextTimeout := 1\<rparr>)"
  "toggleButton (rdr pausedWorld) = Some 0"
  "stateByReader (svc pausedWorld) (instanceID (rdr pausedWorld)) = Some 0"
  "\<not> isEnabled pausedWorld"
  "pendingTimers pausedWorld = [(1, 120, 0)]"
  unfolding pausedWorld_def step_Click_registered [OF busyWorld_facts(1,2,3)]
  by (simp_all add: busyWorld_eq exampleReader_def isEnabled_def enabledOf_def pendingTimers_def
      timersOf_def logCall_def updateState_def del: colorizeSpans.simps)

theorem toggle_keeps_timer_witness:
  "iframeWindow (rdr busyWorld) = Some (readyWindow\<lparr>timeouts := [(1, 120, 0)], nextTimeout := 1\<rparr>)
   \<and> toggleButton (rdr busyWorld) = Some 0
   \<and> stateByReader (svc busyWorld) (instanceID (rdr busyWorld)) = Some 0
   \<and> isEnabled busyWorld
   \<and> pendingTimers (step busyWorld Click) = [(1, 120, 0)]
   \<and> calls (svc (step busyWorld Click)) = [RefreshReaderCall, SetTimeoutCall 1 120, RefreshReaderCall]
   \<and> \<not> isEnabled (step busyWorld Click)
   \<and> map childNodes (spansOf (step busyWorld Click))
       = [[TextNode [0x48, 0x65, 0x6C, 0x6C, 0x6F, 0x20]], [TextNode [0x77, 0x6F, 0x72, 0x6C, 0x64]]]
   \<and> map beelineApplied (spansOf (step busyWorld Click)) = [None, None]
   \<and> spansOf (step (step busyWorld Click) (TimerFires 1)) = spansOf (step busyWorld Click)
   \<and> calls (svc (step (step busyWorld Click) (TimerFires 1)))
       = [RefreshReaderCall, SetTimeoutCall 1 120, RefreshReaderCall, ResetTimerField,
          RefreshReaderCall]
   \<and> iframeWindow (rdr pausedWorld) =
       Some (readyWindow\<lparr>textSpans := map restoreSpan (textSpans readyWindow),
               timeouts := [(1, 120, 0)], nextTimeout := 1\<rparr>)
   \<and> toggleButton (rdr pausedWorld) = Some 0
   \<and> stateByReader (svc pausedWorld) (instanceID (rdr pausedWorld)) = Some 0
   \<and> \<not> isEnabled pausedWorld
   \<and> isEnabled (step pausedWorld Click)
   \<and> pendingTimers (step pausedWorld Click) = [(1, 120, 0)]
   \<and> generatedNodes (spansOf (step pausedWorld Click)) ! 0 = CharSpan ''rgb(26, 115, 232)'' [0x48]
   \<and> generatedNodes (spansOf (step pausedWorld Click)) ! 6 = CharSpan ''rgb(75, 96, 184)'' [0x77]
   \<and> spansOf (step (step pausedWorld Click) (TimerFires 1)) = spansOf (step pausedWorld Click)"
proof -
  let ?w = "readyWindow\<lparr>timeouts := [(1, 120, 0)], nextTimeout := 1\<rparr>"
  let ?p = "readyWindow\<lparr>textSpans := map restoreSpan (textSpans readyWindow),
              timeouts := [(1, 120, 0)], nextTimeout := 1\<rparr>"
  note a = toggle_keeps_timer [OF busyWorld_facts(1,2,3), of 1]
  note b = toggle_keeps_timer [OF pausedWorld_facts(1,2,3), of 1]
  have a1: "pendingTimers (step busyWorld Click) = [(1, 120, 0)]"
    and a2: "calls (svc (step busyWorld Click)) = [RefreshReaderCall, SetTimeoutCall 1 120, RefreshReaderCall]"
    and a3: "\<not> isEnabled (step busyWorld Click)"
    and a4: "spansOf (step busyWorld Click) = map restoreSpan (textSpans readyWindow)"
    and a5: "spansOf (step (step busyWorld Click) (TimerFires 1)) = spansOf (step busyWorld Click)"
    and a6: "calls (svc (step (step busyWorld Click) (TimerFires 1)))
       = [RefreshReaderCall, SetTimeoutCall 1 120, RefreshReaderCall, ResetTimerField,
          RefreshReaderCall]"
    using a busyWorld_facts by (simp_all del: step.simps colorizeSpans.simps)
  have ec: "endColorFor ?p = BLACK"
    by (simp add: endColorFor_def isDarkTheme_def readyWindow_def lightWindow_def)
  have l: "logicalChars (map restoreSpan (textSpans readyWindow)) =
      map (\<lambda>u. [u]) [0x48, 0x65, 0x6C, 0x6C, 0x6F, 0x20, 0x77, 0x6F, 0x72, 0x6C, 0x64]"
    by (simp add: restored_spans logicalChars_def getSourceText_def isLead_def isTrail_def)
  have b1: "isEnabled (step pausedWorld Click)"
    and b2: "pendingTimers (step pausedWorld Click) = [(1, 120, 0)]"
    and b3: "generatedNodes (spansOf (step pausedWorld Click))
              = gradient BLACK (logicalChars (map restoreSpan (textSpans readyWindow)))"
    and b4: "spansOf (step (step pausedWorld Click) (TimerFires 1)) = spansOf (step pausedWorld Click)"
    using b pausedWorld_facts ec
      colorizeSpans_gradient [of BLACK 0 "map restoreSpan (textSpans readyWindow)"]
    by (simp_all add: gradient_fragment del: step.simps colorizeSpans.simps)
  have s0: "sampleColor (fdiv (real (0 mod 48)) 48) BLACK = ''rgb(26, 115, 232)''"
    by (simp add: color_eval fl_eval)
  have s6: "sampleColor (fdiv (real (6 mod 48)) 48) BLACK = ''rgb(75, 96, 184)''"
    by (simp add: color_eval fl_eval)
  have n0: "generatedNodes (spansOf (step pausedWorld Click)) ! 0 = CharSpan ''rgb(26, 115, 232)'' [0x48]"
    unfolding b3 using gradient_nth [of 0 "logicalChars (map restoreSpan (textSpans readyWindow))" BLACK] s0 by (simp add: l)
  have n6: "generatedNodes (spansOf (step pausedWorld Click)) ! 6 = CharSpan ''rgb(75, 96, 184)'' [0x77]"
    unfolding b3 using gradient_nth [of 6 "logicalChars (map restoreSpan (textSpans readyWindow))" BLACK] s6 by (simp add: l)
  show ?thesis
    using busyWorld_facts(1,2,3,4) pausedWorld_facts(1,2,3,4) a1 a2 a3 a5 a6 b1 b2 b4 n0 n6
    by (simp add: a4 restored_spans del: step.simps colorizeSpans.simps)
qed

text \<open>The claim as written fails: a click makes no call of \<^verbatim>\<open>clearTimeout\<close>; the timeout
  scheduled before it is still pending afterwards, and when it fires the recomputation
  runs.\<close>

theorem toggle_leaves_timer_pending:
  "pendingTimers busyWorld = [(1, 120, 0)] \<and> timerHandle busyWorld = Some 1 \<and> isEnabled busyWorld
   \<and> calls (svc busyWorld) = [RefreshReaderCall, SetTimeoutCall 1 120]
   \<and> pendingTimers pausedWorld = [(1, 120, 0)]
   \<and> timerHandle pausedWorld = Some 1
   \<and> calls (svc pausedWorld) = [RefreshReaderCall, SetTimeoutCall 1 120, RefreshReaderCall]
   \<and> calls (svc (step pausedWorld (TimerFires 1)))
       = [RefreshReaderCall, SetTimeoutCall 1 120, RefreshReaderCall, ResetTimerField,
          RefreshReaderCall]"
proof -
  have t: "timerHandle pausedWorld = Some 1"
    and c: "calls (svc pausedWorld) = [RefreshReaderCall, SetTimeoutCall 1 120, RefreshReaderCall]"
    unfolding pausedWorld_def step_Click_registered [OF busyWorld_facts(1,2,3)]
    by (simp_all add: busyWorld_eq exampleReader_def timerHandle_def handleOf_def logCall_def
        updateState_def)
  have "calls (svc (step pausedWorld (TimerFires 1)))
      = calls (svc pausedWorld) @ [ResetTimerField, RefreshReaderCall]"
    by (rule step_TimerFires_registered(3) [OF pausedWorld_facts(3,1)]) simp
  then show ?thesis using busyWorld_facts pausedWorld_facts(5) t c by (simp del: step.simps)
qed

subsection \<open>Teardown\<close>

lemma clearCalls_simps:
  "stateByReader (clearCalls sv ref reader) = stateByReader sv"
  "stateObjects (clearCalls sv ref reader) = stateObjects sv"
  "observers (clearCalls sv ref reader) = observers sv"
  "listening (clearCalls sv ref reader) = listening sv"
  by (simp_all add: clearCalls_def logCall_def split: option.splits)

lemma clearReader_registry: "stateByReader (fst (clearReader sv reader)) = stateByReader sv"
  by (simp add: clearReader_def disconnect_def logCall_def clearCalls_simps split: option.splits)

lemma clearReader_stateObjects: "stateObjects (fst (clearReader sv reader)) = stateObjects sv"
  by (simp add: clearReader_def disconnect_def logCall_def clearCalls_simps split: option.splits)

lemma clearReader_listening: "listening (fst (clearReader sv reader)) = listening sv"
  by (simp add: clearReader_def disconnect_def logCall_def clearCalls_simps split: option.splits)

lemma clearReader_observers_length:
  "length (observers (fst (clearReader sv reader))) = length (observers sv)"
  by (simp add: clearReader_def disconnect_def logCall_def clearCalls_simps split: option.splits)

lemma disconnect_keeps_unobserved:
  "observed (xs ! i) = None \<Longrightarrow> observed ((xs[j := (xs ! j)\<lparr>observed := None\<rparr>]) ! i) = None"
  by (cases "j < length xs"; cases "i = j") (simp_all add: list_update_beyond)

lemma clearReader_observers_None:
  "observed (observers sv ! i) = None \<Longrightarrow>
   observed (observers (fst (clearReader sv reader)) ! i) = None"
  by (simp add: clearReader_def disconnect_def logCall_def clearCalls_simps
      disconnect_keeps_unobserved split: option.splits)

lemma clearReaders_Cons:
  "clearReaders sv (reader # rest) =
     (fst (clearReaders (fst (clearReader sv reader)) rest),
      snd (clearReader sv reader) # snd (clearReaders (fst (clearReader sv reader)) rest))"
  by (simp split: prod.splits)

lemma clearReader_disconnects:
  "stateByReader sv (instanceID reader) = Some ref \<Longrightarrow> observer (stateObjects sv ref) = Some ob \<Longrightarrow>
   ob < length (observers sv) \<Longrightarrow> observed (observers (fst (clearReader sv reader)) ! ob) = None"
  by (simp add: clearReader_def disconnect_def logCall_def clearCalls_simps)

lemma clearReader_reader_cong:
  "stateByReader sv1 = stateByReader sv2 \<Longrightarrow> stateObjects sv1 = stateObjects sv2 \<Longrightarrow>
   snd (clearReader sv1 reader) = snd (clearReader sv2 reader)"
  by (simp add: clearReader_def split: option.splits)

lemma clearReaders_registry: "stateByReader (fst (clearReaders sv readers)) = stateByReader sv"
  by (induction readers arbitrary: sv)
     (simp_all add: clearReaders_Cons clearReader_registry del: clearReaders.simps(2))

lemma clearReaders_listening: "listening (fst (clearReaders sv readers)) = listening sv"
  by (induction readers arbitrary: sv)
     (simp_all add: clearReaders_Cons clearReader_listening del: clearReaders.simps(2))

lemma clearReaders_observers_length:
  "length (observers (fst (clearReaders sv readers))) = length (observers sv)"
proof (induction readers arbitrary: sv)
  case Nil
  show ?case by simp
next
  case (Cons reader rest)
  show ?case
    using Cons.IH [of "fst (clearReader sv reader)"] clearReader_observers_length [of sv reader]
    by (simp add: clearReaders_Cons del: clearReaders.simps(2))
qed

lemma clearReaders_observers_None:
  "observed (observers sv ! i) = None \<Longrightarrow>
   observed (observers (fst (clearReaders sv readers)) ! i) = None"
proof (induction readers arbitrary: sv)
  case Nil
  then show ?case by simp
next
  case (Cons reader rest)
  have "observed (observers (fst (clearReaders (fst (clearReader sv reader)) rest)) ! i) = None"
    using Cons.prems by (intro Cons.IH clearReader_observers_None)
  then show ?case by (simp add: clearReaders_Cons del: clearReaders.simps(2))
qed

lemma clearReaders_readers:
  "snd (clearReaders sv readers) = map (\<lambda>reader. snd (clearReader sv reader)) readers"
proof (induction readers arbitrary: sv)
  case Nil
  show ?case by simp
next
  case (Cons reader rest)
  have "map (\<lambda>r. snd (clearReader (fst (clearReader sv reader)) r)) rest
      = map (\<lambda>r. snd (clearReader sv r)) rest"
    using clearReader_reader_cong [OF clearReader_registry [of sv reader]
        clearReader_stateObjects [of sv reader]] by simp
  then show ?case
    using Cons.IH [of "fst (clearReader sv reader)"]
    by (simp add: clearReaders_Cons del: clearReaders.simps(2))
qed

lemma clearReaders_disconnects:
  assumes "reader \<in> set readers"
    and "stateByReader sv (instanceID reader) = Some ref"
    and "observer (stateObjects sv ref) = Some ob" and "ob < length (observers sv)"
  shows "observed (observers (fst (clearReaders sv readers)) ! ob) = None"
  using assms
proof (induction readers arbitrary: sv)
  case Nil
  then show ?case by simp
next
  case (Cons r rest)
  let ?sv = "fst (clearReader sv r)"
  have len: "ob < length (observers ?sv)"
    using Cons.prems(4) by (simp add: clearReader_observers_length)
  have "observed (observers (fst (clearReaders ?sv rest)) ! ob) = None"
  proof (cases "reader = r")
    case True
    have "observed (observers ?sv ! ob) = None"
      using clearReader_disconnects [of sv r ref ob] Cons.prems True by simp
    then show ?thesis by (rule clearReaders_observers_None)
  next
    case False
    then have "reader \<in> set rest" using Cons.prems(1) by simp
    then show ?thesis
      using Cons.prems(2,3) len
      by (intro Cons.IH) (simp_all add: clearReader_registry clearReader_stateObjects)
  qed
  then show ?case by (simp add: clearReaders_Cons del: clearReaders.simps(2))
qed

lemma clearReader_window:
  assumes "stateByReader sv (instanceID reader) = Some ref" and "iframeWindow reader = Some w"
  shows "\<exists>w'. iframeWindow (snd (clearReader sv reader)) = Some w'
           \<and> textSpans w' = map restoreSpan (textSpans w)
           \<and> (\<forall>h. refreshTimer (stateObjects sv ref) = Some h \<and> 0 < h \<longrightarrow>
                 h \<notin> fst ` set (timeouts w'))"
  using assms by (auto simp: clearReader_def clearTimeout_def split: option.splits)

lemma clearReader_no_window:
  "iframeWindow reader = None \<Longrightarrow> snd (clearReader sv reader) = reader"
  by (simp add: clearReader_def split: option.splits)

lemma restore_pass_unmarked:
  "list_all (\<lambda>el. beelineApplied el \<noteq> Some ONE) (map restoreSpan spans)"
  by (induction spans) (simp_all add: restoreSpan_unmarks)

text \<open>
  C10, as the code has it. \<open>stop\<close> unregisters the toolbar handler and empties the
  registry, and it tears down the readers of the host's list that have a state in the
  registry. For each of them: the observer its state holds observes nothing afterwards; if
  the reader has no window it is left as it is; if it has a window, the timeout whose
  handle the state holds is no longer pending in it and every span has been restored: a
  span that was marked holds its stored original as its only text and no generated character
  node, an unmarked span is as it was, and no span is marked, so that none remains
  coloured (the host's spans carry generated nodes only when marked).
\<close>

theorem stop_tears_down:
  assumes "stop sv readers = (sv', readers')"
  shows "stateByReader sv' = Map.empty \<and> \<not> listening sv' \<and> length readers' = length readers
    \<and> (\<forall>j<length readers. \<forall>ref.
          stateByReader sv (instanceID (readers ! j)) = Some ref \<longrightarrow>
            (\<forall>ob. observer (stateObjects sv ref) = Some ob \<and> ob < length (observers sv) \<longrightarrow>
                  ob < length (observers sv') \<and> observed (observers sv' ! ob) = None)
            \<and> (iframeWindow (readers ! j) = None \<longrightarrow> readers' ! j = readers ! j)
            \<and> (\<forall>w. iframeWindow (readers ! j) = Some w \<longrightarrow>
                  (\<exists>w'. iframeWindow (readers' ! j) = Some w'
                     \<and> textSpans w' = map restoreSpan (textSpans w)
                     \<and> list_all2 restoredFrom (textSpans w) (textSpans w')
                     \<and> list_all (\<lambda>el. beelineApplied el \<noteq> Some ONE) (textSpans w')
                     \<and> (list_all markerConsistent (textSpans w) \<longrightarrow>
                           list_all uncoloured (textSpans w'))
                     \<and> (\<forall>h. refreshTimer (stateObjects sv ref) = Some h \<and> 0 < h \<longrightarrow>
                           h \<notin> fst ` set (timeouts w')))))"
proof -
  let ?sv = "sv\<lparr>listening := False\<rparr>"
  have sv': "sv' = (fst (clearReaders ?sv readers))\<lparr>stateByReader := Map.empty\<rparr>"
    and rs0: "readers' = map (\<lambda>reader. snd (clearReader ?sv reader)) readers"
    using assms clearReaders_readers [of ?sv readers]
    by (auto simp: stop_def split: prod.splits)
  have rs': "readers' = map (\<lambda>reader. snd (clearReader sv reader)) readers"
    unfolding rs0 using clearReader_reader_cong [of ?sv sv] by simp
  have obs: "observers sv' = observers (fst (clearReaders ?sv readers))"
    by (simp add: sv')
  show ?thesis
  proof (intro conjI allI impI)
    show "stateByReader sv' = Map.empty" by (simp add: sv')
    show "\<not> listening sv'" by (simp add: sv' clearReaders_listening)
    show "length readers' = length readers" by (simp add: rs')
  next
    fix j ref ob
    assume j: "j < length readers"
      and st: "stateByReader sv (instanceID (readers ! j)) = Some ref"
      and ob: "observer (stateObjects sv ref) = Some ob \<and> ob < length (observers sv)"
    show "ob < length (observers sv')"
      using ob by (simp add: obs clearReaders_observers_length)
    show "observed (observers sv' ! ob) = None"
      unfolding obs
      using clearReaders_disconnects [of "readers ! j" readers ?sv ref ob] j st ob by simp
  next
    fix j ref
    assume j: "j < length readers" and "iframeWindow (readers ! j) = None"
    then show "readers' ! j = readers ! j" by (simp add: rs' clearReader_no_window)
  next
    fix j ref w
    assume j: "j < length readers"
      and st: "stateByReader sv (instanceID (readers ! j)) = Some ref"
      and w: "iframeWindow (readers ! j) = Some w"
    obtain w' where w': "iframeWindow (snd (clearReader sv (readers ! j))) = Some w'"
      and sp: "textSpans w' = map restoreSpan (textSpans w)"
      and tm: "\<forall>h. refreshTimer (stateObjects sv ref) = Some h \<and> 0 < h \<longrightarrow>
                 h \<notin> fst ` set (timeouts w')"
      using clearReader_window [OF st w] by blast
    show "\<exists>w'. iframeWindow (readers' ! j) = Some w'
        \<and> textSpans w' = map restoreSpan (textSpans w)
        \<and> list_all2 restoredFrom (textSpans w) (textSpans w')
        \<and> list_all (\<lambda>el. beelineApplied el \<noteq> Some ONE) (textSpans w')
        \<and> (list_all markerConsistent (textSpans w) \<longrightarrow> list_all uncoloured (textSpans w'))
        \<and> (\<forall>h. refreshTimer (stateObjects sv ref) = Some h \<and> 0 < h \<longrightarrow>
              h \<notin> fst ` set (timeouts w'))"
      using j w' sp tm
      by (simp add: rs' restore_pass_restoredFrom restore_pass_unmarked restore_pass_uncoloured)
  qed
qed

subsection \<open>Teardown of a busy reader\<close>

lemma busyWorld_service:
  "stateByReader (svc busyWorld) ''r1'' = Some 0"
  "observer (stateObjects (svc busyWorld) 0) = Some 0"
  "refreshTimer (stateObjects (svc busyWorld) 0) = Some 1"
  "observers (svc busyWorld) = [\<lparr>observed = Some ''r1'', callbackState = 0\<rparr>]"
  "watchers (svc busyWorld) ''r1'' = 1"
  "instanceID (rdr busyWorld) = ''r1''"
  "listening (svc busyWorld)"
  by (simp_all add: busyWorld_eq exampleReader_def watchers_def observersOf_def)

lemma readyWindow_consistent: "list_all markerConsistent (textSpans readyWindow)"
  by (simp add: readyWindow_def markerConsistent_def span_examples span_eval)

theorem stop_tears_down_witness:
  "stop (svc busyWorld) [rdr busyWorld] =
     (fst (stop (svc busyWorld) [rdr busyWorld]), snd (stop (svc busyWorld) [rdr busyWorld]))
   \<and> stateByReader (svc busyWorld) (instanceID ([rdr busyWorld] ! 0)) = Some 0
   \<and> observer (stateObjects (svc busyWorld) 0) = Some 0
   \<and> refreshTimer (stateObjects (svc busyWorld) 0) = Some 1
   \<and> watchers (svc busyWorld) ''r1'' = 1
   \<and> pendingTimers busyWorld = [(1, 120, 0)]
   \<and> stateByReader (fst (stop (svc busyWorld) [rdr busyWorld])) = Map.empty
   \<and> \<not> listening (fst (stop (svc busyWorld) [rdr busyWorld]))
   \<and> observed (observers (fst (stop (svc busyWorld) [rdr busyWorld])) ! 0) = None
   \<and> (\<exists>w'. iframeWindow (snd (stop (svc busyWorld) [rdr busyWorld]) ! 0) = Some w'
        \<and> map childNodes (textSpans w')
            = [[TextNode [0x48, 0x65, 0x6C, 0x6C, 0x6F, 0x20]], [TextNode [0x77, 0x6F, 0x72, 0x6C, 0x64]]]
        \<and> list_all uncoloured (textSpans w')
        \<and> 1 \<notin> fst ` set (timeouts w'))"
proof -
  let ?sv = "svc busyWorld" and ?rs = "[rdr busyWorld]"
  let ?w = "readyWindow\<lparr>timeouts := [(1, 120, 0)], nextTimeout := 1\<rparr>"
  have e: "stop ?sv ?rs = (fst (stop ?sv ?rs), snd (stop ?sv ?rs))" by simp
  have st: "stateByReader ?sv (instanceID (?rs ! 0)) = Some 0"
    by (simp add: busyWorld_service)
  have w: "iframeWindow (?rs ! 0) = Some ?w" by (simp add: busyWorld_facts)
  note t = stop_tears_down [OF e]
  have reg: "stateByReader (fst (stop ?sv ?rs)) = Map.empty"
    and lis: "\<not> listening (fst (stop ?sv ?rs))"
    using t by blast+
  have all: "\<forall>j<length ?rs. \<forall>ref.
          stateByReader ?sv (instanceID (?rs ! j)) = Some ref \<longrightarrow>
            (\<forall>ob. observer (stateObjects ?sv ref) = Some ob \<and> ob < length (observers ?sv) \<longrightarrow>
                  ob < length (observers (fst (stop ?sv ?rs)))
                  \<and> observed (observers (fst (stop ?sv ?rs)) ! ob) = None)
            \<and> (iframeWindow (?rs ! j) = None \<longrightarrow> snd (stop ?sv ?rs) ! j = ?rs ! j)
            \<and> (\<forall>w. iframeWindow (?rs ! j) = Some w \<longrightarrow>
                  (\<exists>w'. iframeWindow (snd (stop ?sv ?rs) ! j) = Some w'
                     \<and> textSpans w' = map restoreSpan (textSpans w)
                     \<and> list_all2 restoredFrom (textSpans w) (textSpans w')
                     \<and> list_all (\<lambda>el. beelineApplied el \<noteq> Some ONE) (textSpans w')
                     \<and> (list_all markerConsistent (textSpans w) \<longrightarrow>
                           list_all uncoloured (textSpans w'))
                     \<and> (\<forall>h. refreshTimer (stateObjects ?sv ref) = Some h \<and> 0 < h \<longrightarrow>
                           h \<notin> fst ` set (timeouts w'))))"
    using t by blast
  from all [rule_format, of 0 0] st
  have d: "\<forall>ob. observer (stateObjects ?sv 0) = Some ob \<and> ob < length (observers ?sv) \<longrightarrow>
                  observed (observers (fst (stop ?sv ?rs)) ! ob) = None"
    and x: "\<forall>w. iframeWindow (?rs ! 0) = Some w \<longrightarrow>
                  (\<exists>w'. iframeWindow (snd (stop ?sv ?rs) ! 0) = Some w'
                     \<and> textSpans w' = map restoreSpan (textSpans w)
                     \<and> list_all2 restoredFrom (textSpans w) (textSpans w')
                     \<and> list_all (\<lambda>el. beelineApplied el \<noteq> Some ONE) (textSpans w')
                     \<and> (list_all markerConsistent (textSpans w) \<longrightarrow>
                           list_all uncoloured (textSpans w'))
                     \<and> (\<forall>h. refreshTimer (stateObjects ?sv 0) = Some h \<and> 0 < h \<longrightarrow>
                           h \<notin> fst ` set (timeouts w')))"
    by simp_all
  have d0: "observed (observers (fst (stop ?sv ?rs)) ! 0) = None"
    using d [rule_format, of 0] by (simp add: busyWorld_service)
  obtain w' where w': "iframeWindow (snd (stop ?sv ?rs) ! 0) = Some w'"
    and sp: "textSpans w' = map restoreSpan (textSpans ?w)"
    and un: "list_all markerConsistent (textSpans ?w) \<longrightarrow> list_all uncoloured (textSpans w')"
    and tm: "\<forall>h. refreshTimer (stateObjects ?sv 0) = Some h \<and> 0 < h \<longrightarrow>
               h \<notin> fst ` set (timeouts w')"
    using x [rule_format, OF w] by blast
  have t1: "1 \<notin> fst ` set (timeouts w')"
    using tm [rule_format, of 1] by (simp add: busyWorld_service)
  have c1: "map childNodes (textSpans w')
      = [[TextNode [0x48, 0x65, 0x6C, 0x6C, 0x6F, 0x20]], [TextNode [0x77, 0x6F, 0x72, 0x6C, 0x64]]]"
    using sp by (simp add: restored_spans)
  have u1: "list_all uncoloured (textSpans w')"
    using un readyWindow_consistent by simp
  show ?thesis
    by (intro conjI exI [of _ w'])
       (fact e st reg lis d0 w' t1 c1 u1 busyWorld_service(2,3,5) busyWorld_facts(5))+
qed

text \<open>
  The claim as written fails for a tracked instance that the host's list does not hold:
  \<^verbatim>\<open>stop\<close> walks \<^verbatim>\<open>Zotero.Reader._readers\<close>, not the registry. The reader of the busy
  world has a state in the registry, an observer and a pending timeout; when the host's
  list is empty, \<^verbatim>\<open>stop\<close> empties the registry and makes no call of \<^verbatim>\<open>disconnect\<close> or
  \<^verbatim>\<open>clearTimeout\<close>, and the observer still observes the reader's document.
\<close>

theorem stop_skips_unlisted_reader:
  "stateByReader (svc busyWorld) ''r1'' = Some 0
   \<and> observer (stateObjects (svc busyWorld) 0) = Some 0
   \<and> refreshTimer (stateObjects (svc busyWorld) 0) = Some 1
   \<and> watchers (svc busyWorld) ''r1'' = 1
   \<and> pendingTimers busyWorld = [(1, 120, 0)]
   \<and> stateByReader (fst (stop (svc busyWorld) [])) = Map.empty
   \<and> snd (stop (svc busyWorld) []) = []
   \<and> observed (observers (fst (stop (svc busyWorld) [])) ! 0) = Some ''r1''
   \<and> watchers (fst (stop (svc busyWorld) [])) ''r1'' = 1
   \<and> calls (fst (stop (svc busyWorld) [])) = calls (svc busyWorld)"
  using busyWorld_service busyWorld_facts(5)
  by (simp add: stop_def watchers_def observersOf_def)

text \<open>
  What teardown leaves behind. The click listener of the toggle button is not removed and
  holds its state object: a click in the stopped world flips the flag of that object, and
  the pass that follows finds the registry empty, creates a fresh enabled state and colours
  the restored spans again.
\<close>

lemma click_after_stop:
  "stateByReader (svc stoppedWorld) = Map.empty
   \<and> toggleButton (rdr stoppedWorld) = Some 0
   \<and> spansOf stoppedWorld = map restoreSpan (textSpans readyWindow)
   \<and> stateByReader (svc (step stoppedWorld Click)) ''r1'' = Some 1
   \<and> \<not> enabled (stateObjects (svc (step stoppedWorld Click)) 0)
   \<and> enabled (stateObjects (svc (step stoppedWorld Click)) 1)
   \<and> spansOf (step stoppedWorld Click)
       = fst (colorizeSpans BLACK 0 (map restoreSpan (textSpans readyWindow)))"
  by (simp add: stoppedWorld_def stop_def clearReader_def clearCalls_def disconnect_def
      busyWorld_eq exampleReader_def clickHandler_def refreshReader_def ensureReaderState_def
      updateState_def logCall_def initialState_def clearTimeout_def spansOf_def spansOfReader_def
      endColorFor_def isDarkTheme_def readyWindow_def lightWindow_def del: colorizeSpans.simps)

end
